theory Spec2Isabelle
  imports Main
begin

section \<open>Errors\<close>

text \<open>
  Everything the handlers hand to \<open>next(err)\<close> or throw. \<open>AppError msg code\<close> is
  the repository's own error class; \<open>UnauthorizedError\<close> is what \<open>express-jwt\<close> passes
  on; \<open>JOSEError\<close> is what \<open>jose.jwtVerify\<close> throws; \<open>PrismaError\<close> carries the Prisma
  code (\<open>P2002\<close> unique constraint, \<open>P2025\<close> record not found); \<open>TypeError\<close> is
  JavaScript's own (a property read on \<open>undefined\<close>); \<open>ERR_HTTP_HEADERS_SENT\<close> is what
  Node raises when a header is set on a response that has already been sent; \<open>Fault\<close>
  stands for any exception of a store or driver.
\<close>

datatype error =
    AppError string nat
  | UnauthorizedError string
  | JOSEError string
  | PrismaError string
  | TypeError string
  | ERR_HTTP_HEADERS_SENT
  | Fault string

section \<open>Tokens (src/core/rfc7519.ts)\<close>

text \<open>\<open>config\<close> is not among the sources; its values are parameters.\<close>

record config =
  JWT_SECRET :: string
  JWT_AUDIENCE :: string
  JWT_ISSUER :: string
  JWT_PRIVATE_KEY :: string
  JWT_PUBLIC_KEY :: string

record JWTPayload =
  aud :: string
  exp :: int
  iat :: int
  iss :: string
  jti :: string
  nbf :: int
  sub :: string

record JWTHeaderParameters =
  alg :: string
  typ' :: string

text \<open>
  A compact signed token, taken apart: protected header, payload and signature. The
  signature algorithms themselves (HMAC-SHA256, Ed25519) are parameters: \<open>hmac key h p\<close>
  is the HS256 signature of header \<open>h\<close> and payload \<open>p\<close> under \<open>key\<close>, \<open>edsign\<close> the EdDSA
  signature under a private key, and \<open>edverify key h p s\<close> says whether \<open>s\<close> is a valid
  EdDSA signature under the public key.
\<close>

record jws =
  header :: JWTHeaderParameters
  payload :: JWTPayload
  signature :: string

record crypto =
  hmac :: "string \<Rightarrow> JWTHeaderParameters \<Rightarrow> JWTPayload \<Rightarrow> string"
  edsign :: "string \<Rightarrow> JWTHeaderParameters \<Rightarrow> JWTPayload \<Rightarrow> string"
  edverify :: "string \<Rightarrow> JWTHeaderParameters \<Rightarrow> JWTPayload \<Rightarrow> string \<Rightarrow> bool"

text \<open>
  JavaScript numbers are IEEE 754 doubles: a sum or a product is the exact result rounded
  to the nearest double, ties to the even significand. The numbers of this file are
  integer-valued and below the overflow threshold; on these, \<open>round53 n\<close> is the double
  nearest to the integer \<open>n\<close>: \<open>spacing a\<close> is the distance between neighbouring doubles at
  magnitude \<open>a\<close> (one up to \<open>2 ^ 53\<close>, then doubling with every binary digit), and \<open>n\<close> is
  rounded to a multiple of it.
\<close>

function spacing :: "nat \<Rightarrow> nat" where
  "spacing a = (if a < 2 ^ 53 then 1 else 2 * spacing (a div 2))"
  by pat_completeness auto
termination
  by (relation "measure id") auto

declare spacing.simps [simp del]

definition round53 :: "int \<Rightarrow> int" where
  "round53 n =
     (let a = nat \<bar>n\<bar>; u = spacing a; q = a div u; r = a mod u;
          m = (if 2 * r > u \<or> (2 * r = u \<and> odd q) then q + 1 else q)
      in sgn n * int (m * u))"

definition js_plus :: "int \<Rightarrow> int \<Rightarrow> int" where
  "js_plus a b = round53 (a + b)"

definition js_times :: "int \<Rightarrow> int \<Rightarrow> int" where
  "js_times a b = round53 (a * b)"

text \<open>
  \<open>Math.floor(Date.now() / 1000)\<close>: a clock reading in milliseconds, in whole seconds.
  \<open>Date.now()\<close> is a non-negative integer below \<open>2 ^ 53\<close>, where the floor of the double
  quotient is the integer quotient.
\<close>

definition seconds :: "int \<Rightarrow> int" where
  "seconds ms = ms div 1000"

text \<open>
  \<open>signHS256JWT(jti, sub, expiration)\<close>. The source reads \<open>Date.now()\<close> three times, once
  for \<open>exp\<close>, once for \<open>iat\<close> and once for \<open>nbf\<close>, in this order; the three readings are the
  arguments \<open>t_exp\<close>, \<open>t_iat\<close> and \<open>t_nbf\<close>. \<open>expiration\<close> is in minutes, an integer-valued
  number; \<open>exp\<close> is computed in the source's double arithmetic.
\<close>

definition signHS256JWT ::
  "config \<Rightarrow> crypto \<Rightarrow> int \<Rightarrow> int \<Rightarrow> int \<Rightarrow> string \<Rightarrow> string \<Rightarrow> int \<Rightarrow> jws" where
  "signHS256JWT cfg cr t_exp t_iat t_nbf j s expiration =
     (let secret = JWT_SECRET cfg;
          p = \<lparr> aud = JWT_AUDIENCE cfg,
                exp = js_plus (seconds t_exp) (js_times expiration 60),
                iat = seconds t_iat,
                iss = JWT_ISSUER cfg,
                jti = j,
                nbf = seconds t_nbf,
                sub = s \<rparr>;
          headers = \<lparr> alg = ''HS256'', typ' = ''JWT'' \<rparr>
      in \<lparr> header = headers, payload = p, signature = hmac cr secret headers p \<rparr>)"

definition signEdDSAJWT ::
  "config \<Rightarrow> crypto \<Rightarrow> int \<Rightarrow> int \<Rightarrow> int \<Rightarrow> string \<Rightarrow> string \<Rightarrow> int \<Rightarrow> jws" where
  "signEdDSAJWT cfg cr t_exp t_iat t_nbf j s expiration =
     (let privateKey = JWT_PRIVATE_KEY cfg;
          p = \<lparr> aud = JWT_AUDIENCE cfg,
                exp = js_plus (seconds t_exp) (js_times expiration 60),
                iat = seconds t_iat,
                iss = JWT_ISSUER cfg,
                jti = j,
                nbf = seconds t_nbf,
                sub = s \<rparr>;
          headers = \<lparr> alg = ''EdDSA'', typ' = ''JWT'' \<rparr>
      in \<lparr> header = headers, payload = p, signature = edsign cr privateKey headers p \<rparr>)"

text \<open>
  The claim checks that the two verification libraries make once the signature has been
  accepted (\<open>jsonwebtoken.verify\<close> under \<open>express-jwt\<close>, \<open>jose.jwtVerify\<close>), with no clock
  tolerance: a token is not yet valid while \<open>nbf\<close> is after the clock, it is expired from
  the second \<open>exp\<close> on, and audience and issuer must be the expected ones.
\<close>

datatype claim_failure = NotActive | Expired | WrongAudience | WrongIssuer

definition checkClaims :: "string \<Rightarrow> string \<Rightarrow> int \<Rightarrow> JWTPayload \<Rightarrow> claim_failure option" where
  "checkClaims audience issuer now p =
     (if nbf p > seconds now then Some NotActive
      else if seconds now \<ge> exp p then Some Expired
      else if aud p \<noteq> audience then Some WrongAudience
      else if iss p \<noteq> issuer then Some WrongIssuer
      else None)"

text \<open>
  A header that may carry a token: either a well-formed compact token (for
  \<open>Authorization\<close>, after the \<open>Bearer\<close> scheme), or any other text.
\<close>

datatype header_value = JWS jws | Text string

text \<open>
  \<open>verifySessionJwt\<close> (src/src/__tests_setup__/flushRedis.ts, second file of that part):
  \<open>express-jwt\<close> with \<open>algorithms: ['HS256']\<close>, the shared secret, the configured audience
  and issuer, and \<open>onExpired\<close> throwing the repository's \<open>AppError\<close>. On success the payload
  is stored in \<open>req.auth\<close>; every failure goes to the callback as an error. \<open>now\<close> is the
  clock reading of the verification, in milliseconds.
\<close>

definition verifySessionJwt ::
  "config \<Rightarrow> crypto \<Rightarrow> int \<Rightarrow> header_value option \<Rightarrow> error + JWTPayload" where
  "verifySessionJwt cfg cr now authorization =
     (case authorization of
        None \<Rightarrow> Inl (UnauthorizedError ''credentials_required'')
      | Some (Text _) \<Rightarrow> Inl (UnauthorizedError ''credentials_bad_format'')
      | Some (JWS t) \<Rightarrow>
          if alg (header t) \<noteq> ''HS256'' then Inl (UnauthorizedError ''invalid_token'')
          else if signature t \<noteq> hmac cr (JWT_SECRET cfg) (header t) (payload t)
            then Inl (UnauthorizedError ''invalid_token'')
          else (case checkClaims (JWT_AUDIENCE cfg) (JWT_ISSUER cfg) now (payload t) of
                  Some Expired \<Rightarrow>
                    Inl (AppError ''You are not logged in yet! Please log in first!'' 401)
                | Some _ \<Rightarrow> Inl (UnauthorizedError ''invalid_token'')
                | None \<Rightarrow> Inr (payload t)))"

text \<open>
  \<open>verifyEdDSAJWT(token)\<close>: \<open>jose.jwtVerify\<close> with the public key and the configured
  audience and issuer. It throws on every failure.
\<close>

definition verifyEdDSAJWT ::
  "config \<Rightarrow> crypto \<Rightarrow> int \<Rightarrow> header_value \<Rightarrow> error + JWTPayload" where
  "verifyEdDSAJWT cfg cr now token =
     (case token of
        Text _ \<Rightarrow> Inl (JOSEError ''JWSInvalid'')
      | JWS t \<Rightarrow>
          if \<not> edverify cr (JWT_PUBLIC_KEY cfg) (header t) (payload t) (signature t)
            then Inl (JOSEError ''JWSSignatureVerificationFailed'')
          else (case checkClaims (JWT_AUDIENCE cfg) (JWT_ISSUER cfg) now (payload t) of
                  Some Expired \<Rightarrow> Inl (JOSEError ''JWTExpired'')
                | Some _ \<Rightarrow> Inl (JOSEError ''JWTClaimValidationFailed'')
                | None \<Rightarrow> Inr (payload t)))"

section \<open>The API-wide limiter (src/src/modules/middleware/slow-down.ts)\<close>

text \<open>
  The \<open>delayMs\<close> callback of the source: \<open>req.slowDown.limit\<close> is the configured
  \<open>delayAfter\<close>.
\<close>

definition delayMs :: "int \<Rightarrow> int \<Rightarrow> int" where
  "delayMs used limit = (used - limit) * 200"

text \<open>
  What the limiter does with a request. \<open>express-slow-down\<close> runs its handler on every
  request: the delay is zero unless the count \<open>used\<close> of the caller's requests in the window
  is above \<open>delayAfter\<close>; then it is the callback's value, capped by \<open>maxDelayMs\<close> (left at its
  default, infinity, by the source) and never negative. After the delay it calls
  \<open>next()\<close>. \<open>Reject\<close> is the answer a hard limiter would give.
\<close>

datatype limiter_action = Forward int | Reject nat

definition slowDown :: "int \<Rightarrow> int \<Rightarrow> limiter_action" where
  "slowDown delayAfter used =
     (let delay = (if used > delayAfter then max 0 (delayMs used delayAfter) else 0)
      in Forward delay)"

section \<open>Tables and stores\<close>

text \<open>
  The columns of the \<open>User\<close> and \<open>Session\<close> tables that the handlers read or write
  (src/prisma/migrations); \<open>createdAt\<close>, \<open>updatedAt\<close>, the two one-time codes and the role
  play no part here. \<open>Session.userPK\<close> is \<open>session_userPK\<close>. Dates are clock readings.
\<close>

record user =
  userPK :: nat
  userID :: string
  username :: string
  email :: string
  phoneNumber :: string
  password :: string
  totpSecret :: string
  fullName :: string
  isActive :: bool

record session =
  sessionPK :: nat
  sessionID :: string
  session_userPK :: nat
  lastActive :: int
  signedIn :: int
  device :: string
  ipAddress :: string
  userAgent :: string

text \<open>The message handed to the notification dispatcher: recipient address and name.\<close>

datatype mail = Notification string string

text \<open>
  The two tables, the serial of \<open>sessionPK\<close>, the keys of the key-value store and the mails
  sent so far. The key-value store holds five families of keys: session id to user id,
  the OTP attempt counter of a user, the security-alert lock of a user, the consumed
  (user, code) pairs, and step-up token id to user id. Expiry of a key is not a step of
  this model: a key is there until it is deleted, which is the store as seen within the
  lifetime of the key.
\<close>

record state =
  users :: "user list"
  sessions :: "session list"
  nextSessionPK :: nat
  cacheSessions :: "string \<rightharpoonup> string"
  otpAttempts :: "string \<rightharpoonup> nat"
  securityAlertEmailLock :: "string set"
  blacklistedOTP :: "(string \<times> string) set"
  otpSessions :: "string \<rightharpoonup> string"
  outbox :: "mail list"

subsection \<open>CacheService (src/modules/cache/service is not among the sources)\<close>

text \<open>
  Modelled from the spec: \<open>CacheService.getUserIDFromSession\<close> is the session store's
  \<open>get(sessionID)\<close>, "subjectID or absent".
\<close>

definition getUserIDFromSession :: "state \<Rightarrow> string \<Rightarrow> string option" where
  "getUserIDFromSession st sid = cacheSessions st sid"

text \<open>
  Modelled from the spec: \<open>CacheService.setSession\<close> is the session store's
  \<open>put(sessionID, subjectID)\<close>, an "idempotent upsert" of that key.
\<close>

definition setSession :: "state \<Rightarrow> string \<Rightarrow> string \<Rightarrow> state" where
  "setSession st sid uid = st\<lparr>cacheSessions := (cacheSessions st)(sid \<mapsto> uid)\<rparr>"

text \<open>
  Modelled from the spec: \<open>CacheService.deleteSession\<close> is the session store's
  \<open>delete(sessionID)\<close>, "explicit revocation".
\<close>

definition CacheService_deleteSession :: "state \<Rightarrow> string \<Rightarrow> state" where
  "CacheService_deleteSession st sid = st\<lparr>cacheSessions := (cacheSessions st)(sid := None)\<rparr>"

text \<open>
  Modelled from the spec: \<open>CacheService.getOTPAttempts\<close> reads the attempt counter, a
  "per-subject integer with TTL window"; absent when the user has no counter.
\<close>

definition getOTPAttempts :: "state \<Rightarrow> string \<Rightarrow> nat option" where
  "getOTPAttempts st uid = otpAttempts st uid"

text \<open>
  Modelled from the spec: \<open>CacheService.setOTPAttempts\<close> is the lockout's "increments":
  the counter of the user goes up by one, from nothing to one.
\<close>

definition setOTPAttempts :: "state \<Rightarrow> string \<Rightarrow> state" where
  "setOTPAttempts st uid =
     st\<lparr>otpAttempts := (otpAttempts st)(uid \<mapsto> (case otpAttempts st uid of None \<Rightarrow> 1 | Some n \<Rightarrow> n + 1))\<rparr>"

text \<open>
  Modelled from the spec: \<open>CacheService.getSecurityAlertEmailLock\<close> and
  \<open>setSecurityAlertEmailLock\<close> keep the mark behind the "one-time security notification
  per lockout episode".
\<close>

definition getSecurityAlertEmailLock :: "state \<Rightarrow> string \<Rightarrow> bool" where
  "getSecurityAlertEmailLock st uid = (uid \<in> securityAlertEmailLock st)"

definition setSecurityAlertEmailLock :: "state \<Rightarrow> string \<Rightarrow> state" where
  "setSecurityAlertEmailLock st uid =
     st\<lparr>securityAlertEmailLock := insert uid (securityAlertEmailLock st)\<rparr>"

text \<open>
  Modelled from the spec: \<open>CacheService.getBlacklistedOTP\<close> and \<open>blacklistOTP\<close> are the
  blacklist, "(subjectID, code) marked consumed for the remainder of its validity
  time-step".
\<close>

definition getBlacklistedOTP :: "state \<Rightarrow> string \<Rightarrow> string \<Rightarrow> bool" where
  "getBlacklistedOTP st uid code = ((uid, code) \<in> blacklistedOTP st)"

definition blacklistOTP :: "state \<Rightarrow> string \<Rightarrow> string \<Rightarrow> state" where
  "blacklistOTP st uid code = st\<lparr>blacklistedOTP := insert (uid, code) (blacklistedOTP st)\<rparr>"

text \<open>
  Modelled from the spec: \<open>CacheService.setOTPSession\<close> records the step-up token id of a
  user in the key-value store ("generic get/set").
\<close>

definition setOTPSession :: "state \<Rightarrow> string \<Rightarrow> string \<Rightarrow> state" where
  "setOTPSession st j uid = st\<lparr>otpSessions := (otpSessions st)(j \<mapsto> uid)\<rparr>"

subsection \<open>UserService (src/api/v1/user/service is not among the sources)\<close>

text \<open>
  \<open>UserService.getUserComplete({ userID })\<close>: the row of the \<open>User\<close> table with this
  \<open>userID\<close> (a unique column), or nothing.
\<close>

definition getUserComplete :: "state \<Rightarrow> string \<Rightarrow> user option" where
  "getUserComplete st uid = find (\<lambda>u. userID u = uid) (users st)"

subsection \<open>SessionService (src/src/api/v1/session/service.ts)\<close>

text \<open>\<open>Prisma.SessionWhereUniqueInput\<close>: the three unique columns of \<open>Session\<close>.\<close>

datatype session_where = BySessionPK nat | BySessionID string | ByUserPK nat

fun matches :: "session_where \<Rightarrow> session \<Rightarrow> bool" where
  "matches (BySessionPK k) s = (sessionPK s = k)"
| "matches (BySessionID i) s = (sessionID s = i)"
| "matches (ByUserPK k) s = (session_userPK s = k)"

record sessionData =
  sd_lastActive :: int
  sd_signedIn :: int
  sd_device :: string
  sd_ipAddress :: string
  sd_userAgent :: string

definition getSession :: "state \<Rightarrow> session_where \<Rightarrow> session option" where
  "getSession st w = find (matches w) (sessions st)"

text \<open>
  Values that a call draws from outside: clock readings (milliseconds) and fresh
  identifiers. \<open>default_uuid\<close> is the \<open>sessionID\<close> that a row created without one receives
  (the column is \<open>NOT NULL\<close> and the \<open>create\<close> branch of the upsert passes none).
\<close>

record nondet =
  clock_verify :: int
  clock_lastActive :: int
  clock_signedIn :: int
  clock_exp :: int
  clock_iat :: int
  clock_nbf :: int
  uuid :: string
  default_uuid :: string
  nano :: string

definition writeData :: "sessionData \<Rightarrow> session \<Rightarrow> session" where
  "writeData sd s =
     s\<lparr>lastActive := sd_lastActive sd, signedIn := sd_signedIn sd, device := sd_device sd,
       ipAddress := sd_ipAddress sd, userAgent := sd_userAgent sd\<rparr>"

text \<open>
  \<open>createOrUpdateSession(user, sessionData)\<close>: \<open>prisma.session.upsert\<close> on the unique
  \<open>userPK\<close>, then \<open>CacheService.setSession\<close>. The update branch writes
  \<open>randomUUID()\<close> and the session data into the user's row; the create branch inserts a
  row. The table's unique index on \<open>sessionID\<close> makes the statement fail (\<open>P2002\<close>) when
  another row already has the new identifier; a failed statement changes nothing.
\<close>

definition createOrUpdateSession ::
  "state \<Rightarrow> nondet \<Rightarrow> user \<Rightarrow> sessionData \<Rightarrow> (error + session) \<times> state" where
  "createOrUpdateSession st nd u sd =
     (case find (\<lambda>s. session_userPK s = userPK u) (sessions st) of
        Some old \<Rightarrow>
          (let new = writeData sd (old\<lparr>sessionID := uuid nd\<rparr>) in
           if \<exists>s \<in> set (sessions st). session_userPK s \<noteq> userPK u \<and> sessionID s = uuid nd
           then (Inl (PrismaError ''P2002''), st)
           else (Inr new,
                 setSession
                   (st\<lparr>sessions := map (\<lambda>s. if session_userPK s = userPK u then new else s) (sessions st)\<rparr>)
                   (sessionID new) (userID u)))
      | None \<Rightarrow>
          (let new = writeData sd
                 \<lparr> sessionPK = nextSessionPK st, sessionID = default_uuid nd,
                   session_userPK = userPK u, lastActive = 0, signedIn = 0, device = [],
                   ipAddress = [], userAgent = [] \<rparr> in
           if \<exists>s \<in> set (sessions st). sessionID s = default_uuid nd
           then (Inl (PrismaError ''P2002''), st)
           else (Inr new,
                 setSession
                   (st\<lparr>sessions := sessions st @ [new], nextSessionPK := nextSessionPK st + 1\<rparr>)
                   (sessionID new) (userID u))))"

text \<open>
  \<open>updateSession(where, data)\<close>: \<open>prisma.session.update\<close>, which fails (\<open>P2025\<close>) when no
  row matches.
\<close>

definition updateSession ::
  "state \<Rightarrow> session_where \<Rightarrow> sessionData \<Rightarrow> (error + session) \<times> state" where
  "updateSession st w sd =
     (case find (matches w) (sessions st) of
        None \<Rightarrow> (Inl (PrismaError ''P2025''), st)
      | Some old \<Rightarrow>
          (let new = writeData sd old in
           (Inr new, st\<lparr>sessions := map (\<lambda>s. if matches w s then new else s) (sessions st)\<rparr>)))"

text \<open>
  \<open>deleteSession(where)\<close>: \<open>prisma.session.delete\<close>, which fails (\<open>P2025\<close>) when no row
  matches, then the deletion of the row's \<open>sessionID\<close> from the cache.
\<close>

definition deleteSession :: "state \<Rightarrow> session_where \<Rightarrow> (error + unit) \<times> state" where
  "deleteSession st w =
     (case find (matches w) (sessions st) of
        None \<Rightarrow> (Inl (PrismaError ''P2025''), st)
      | Some sessionDeleted \<Rightarrow>
          (Inr (),
           CacheService_deleteSession
             (st\<lparr>sessions := filter (\<lambda>s. \<not> matches w s) (sessions st)\<rparr>)
             (sessionID sessionDeleted)))"

section \<open>Requests\<close>

text \<open>\<open>AuthInfo\<close> of extensions.d.ts, the value of \<open>req.session\<close>.\<close>

record AuthInfo =
  ai_userPK :: nat
  ai_userID :: string
  ai_tokenID :: string
  ai_sessionPK :: nat
  ai_sessionID :: string
  ai_lastActive :: int
  ai_signedIn :: int
  ai_device :: string
  ai_ip :: string

text \<open>
  The parts of an Express request that the handlers read. \<open>preflight\<close> says that the
  request is an \<open>OPTIONS\<close> request announcing an \<open>Authorization\<close> header, which
  \<open>express-jwt\<close> lets through without a token. \<open>req_device\<close> and \<open>req_ip\<close> are what
  \<open>getDeviceID(req)\<close> returns.
\<close>

record request =
  preflight :: bool
  authorization :: "header_value option"
  otp_authorization :: "header_value option"
  user_agent :: "string option"
  body_username :: string
  body_password :: string
  req_session :: "AuthInfo option"
  req_device :: string
  req_ip :: string

section \<open>hasSession (src/src/modules/middleware/has-session.ts)\<close>

text \<open>
  The result is what the middleware hands on: \<open>Inl err\<close> for \<open>next(err)\<close>, \<open>Inr s\<close> for
  \<open>next()\<close> with \<open>req.session = s\<close>. A JavaScript string is falsy when it is empty, so
  \<open>!sessionID\<close> and \<open>!userID\<close> also hold for the empty string. On a preflight request
  \<open>express-jwt\<close> calls back without an error and without setting \<open>req.auth\<close>, so that
  \<open>req.auth?.jti\<close> is undefined.
\<close>

definition integrity :: error where
  "integrity = AppError ''Failed to verify the integrity of the token.'' 401"

definition hasSession ::
  "config \<Rightarrow> crypto \<Rightarrow> state \<Rightarrow> nondet \<Rightarrow> request \<Rightarrow> (error + AuthInfo) \<times> state" where
  "hasSession cfg cr st nd req =
     (case (if preflight req then Inr None
            else map_sum id Some (verifySessionJwt cfg cr (clock_verify nd) (authorization req))) of
        Inl err \<Rightarrow> (Inl err, st)
      | Inr auth \<Rightarrow>
          (case (case auth of None \<Rightarrow> None | Some p \<Rightarrow> if jti p = [] then None else Some (jti p)) of
             None \<Rightarrow> (Inl integrity, st)
           | Some sid \<Rightarrow>
               (case getUserIDFromSession st sid of
                  None \<Rightarrow> (Inl integrity, st)
                | Some uid \<Rightarrow>
                    if uid = [] then (Inl integrity, st)
                    else
                      (case getSession st (BySessionID sid) of
                         None \<Rightarrow> (Inl integrity, CacheService_deleteSession st sid)
                       | Some sess \<Rightarrow>
                           (case getUserComplete st uid of
                              None \<Rightarrow>
                                (Inl (AppError ''User belonging to this session does not exist.'' 400), st)
                            | Some u \<Rightarrow>
                                if \<not> isActive u
                                then (Inl (AppError ''User is not active. Please contact the admin.'' 403), st)
                                else
                                  (let sd = \<lparr> sd_lastActive = clock_lastActive nd,
                                              sd_signedIn = clock_signedIn nd,
                                              sd_device = req_device req,
                                              sd_ipAddress = req_ip req,
                                              sd_userAgent = (case user_agent req of None \<Rightarrow> [] | Some a \<Rightarrow> a) \<rparr>
                                   in case updateSession st (BySessionID sid) sd of
                                        (Inl err, st') \<Rightarrow> (Inl err, st')
                                      | (Inr _, st') \<Rightarrow>
                                          (Inr \<lparr> ai_userPK = userPK u, ai_userID = uid,
                                                 ai_tokenID = sid, ai_sessionPK = sessionPK sess,
                                                 ai_sessionID = sid,
                                                 ai_lastActive = sd_lastActive sd,
                                                 ai_signedIn = sd_signedIn sd,
                                                 ai_device = sd_device sd,
                                                 ai_ip = sd_ipAddress sd \<rparr>, st')))))))"

section \<open>Responses\<close>

text \<open>
  The JSON body of \<open>sendResponse\<close> (src/unnamed/part_007): \<open>status\<close>, \<open>message\<close>, \<open>data\<close>
  and \<open>type\<close>, with the HTTP status code. \<open>data\<close> is one of the shapes that the handlers
  below send: the user's status, the login result, a step-up token.
\<close>

record filteredUser =
  fu_userID :: string
  fu_email :: string
  fu_phoneNumber :: string
  fu_fullName :: string
  fu_isActive :: bool

datatype data =
    StatusData (isAuthenticated: bool) (isMFA: bool) (statusUser: "user option")
  | LoginData filteredUser jws
  | TokenData jws

record reply =
  status :: string
  statusCode :: nat
  data :: data
  message :: string
  rtype :: string

text \<open>
  An Express response: \<open>sent\<close> is the body that went out, if any. \<open>res.status(..).json(..)\<close>
  on a response that has not been sent sends it; on one that has been sent it throws
  (\<open>ERR_HTTP_HEADERS_SENT\<close>, from setting the content type anew) and what went out stays
  as it is.
\<close>

record response =
  sent :: "reply option"

definition sendResponse :: "reply \<Rightarrow> response \<Rightarrow> (error + unit) \<times> response" where
  "sendResponse r res =
     (case sent res of
        None \<Rightarrow> (Inr (), res\<lparr>sent := Some r\<rparr>)
      | Some _ \<Rightarrow> (Inl ERR_HTTP_HEADERS_SENT, res))"

section \<open>AuthController (src/unnamed/part_002)\<close>

text \<open>
  Functions of the repository that are not among the sources, and the TOTP and password
  primitives, are parameters: \<open>UserService.getUserByCredentials\<close> over the \<open>User\<close> table,
  \<open>verifyPassword(hash, candidate)\<close>, \<open>parseBasicAuth(header)\<close> returning username and
  password (empty when there is none), and \<open>validateDefaultTOTP(code, secret)\<close>.
\<close>

record deps =
  getUserByCredentials :: "user list \<Rightarrow> string \<Rightarrow> string \<Rightarrow> string \<Rightarrow> user option"
  verifyPassword :: "string \<Rightarrow> string \<Rightarrow> bool"
  parseBasicAuth :: "header_value \<Rightarrow> string \<times> string"
  validateDefaultTOTP :: "string \<Rightarrow> string \<Rightarrow> bool"

subsection \<open>login\<close>

definition filtered :: "user \<Rightarrow> filteredUser" where
  "filtered u = \<lparr> fu_userID = userID u, fu_email = email u, fu_phoneNumber = phoneNumber u,
                  fu_fullName = fullName u, fu_isActive = isActive u \<rparr>"

text \<open>
  The result of a handler is \<open>Inl err\<close> for \<open>next(err)\<close> (or a rejected promise) and
  \<open>Inr r\<close> for the response sent.
\<close>

definition login ::
  "config \<Rightarrow> crypto \<Rightarrow> deps \<Rightarrow> state \<Rightarrow> nondet \<Rightarrow> request \<Rightarrow> (error + reply) \<times> state" where
  "login cfg cr d st nd req =
     (let name = body_username req; pw = body_password req in
      case getUserByCredentials d (users st) name name name of
        None \<Rightarrow> (Inl (AppError ''Invalid username and/or password!'' 401), st)
      | Some u \<Rightarrow>
          if \<not> verifyPassword d (password u) pw
          then (Inl (AppError ''Invalid username and/or password!'' 401), st)
          else if \<not> isActive u
          then (Inl (AppError ''User is not active. Please contact the admin.'' 403), st)
          else
            (let sd = \<lparr> sd_lastActive = clock_lastActive nd,
                        sd_signedIn = clock_signedIn nd,
                        sd_device = req_device req,
                        sd_ipAddress = req_ip req,
                        sd_userAgent = (case user_agent req of None \<Rightarrow> [] | Some a \<Rightarrow> a) \<rparr>
             in case createOrUpdateSession st nd u sd of
                  (Inl err, st') \<Rightarrow> (Inl err, st')
                | (Inr sess, st') \<Rightarrow>
                    (let age = 60 * 24;
                         token = signHS256JWT cfg cr (clock_exp nd) (clock_iat nd) (clock_nbf nd)
                                   (sessionID sess) (userID u) age
                     in (Inr \<lparr> status = ''success'', statusCode = 200,
                               data = LoginData (filtered u) token,
                               message = ''Logged in successfully!'', rtype = ''auth'' \<rparr>, st'))))"

text \<open>The session identifier that a login response carries: the \<open>jti\<close> of its token.\<close>

definition loginSessionID :: "reply \<Rightarrow> string" where
  "loginSessionID r = (case data r of LoginData _ t \<Rightarrow> jti (payload t) | _ \<Rightarrow> [])"

subsection \<open>verifyOTP\<close>

definition lockedOut :: error where
  "lockedOut = AppError
     ''You have exceeded the number of times allowed for a secured session. Please try again in the next day.''
     429"

definition replayedOTP :: error where
  "replayedOTP = AppError ''This OTP has expired. Please request it again in 30 seconds!'' 410"

definition wrongOTP :: error where
  "wrongOTP = AppError ''Invalid authentication, wrong OTP code.'' 401"

text \<open>
  \<open>invalidBasicAuth(msg, code, res, next)\<close> sets the \<open>Authenticate\<close> header and calls
  \<open>next(new AppError(msg, code))\<close>; the result below is that error.
  \<open>attempts && Number.parseInt(attempts, 10) === 3\<close> holds when the counter is there and
  reads three.
\<close>

definition verifyOTP ::
  "config \<Rightarrow> crypto \<Rightarrow> deps \<Rightarrow> state \<Rightarrow> nondet \<Rightarrow> request \<Rightarrow> (error + reply) \<times> state" where
  "verifyOTP cfg cr d st nd req =
     (case authorization req of
        None \<Rightarrow> (Inl (AppError ''Missing authorization in request!'' 401), st)
      | Some a \<Rightarrow>
          (case parseBasicAuth d a of
             (name, code) \<Rightarrow>
               if name = [] \<or> code = []
               then (Inl (AppError ''Invalid authentication scheme!'' 401), st)
               else
                 (case getUserComplete st name of
                    None \<Rightarrow> (Inl (AppError ''User with that ID is not found.'' 404), st)
                  | Some u \<Rightarrow>
                      if getOTPAttempts st (userID u) = Some 3
                      then
                        (Inl lockedOut,
                         if \<not> getSecurityAlertEmailLock st (userID u)
                         then (let st1 = setSecurityAlertEmailLock st (userID u)
                               in st1\<lparr>outbox := outbox st1 @ [Notification (email u) (fullName u)]\<rparr>)
                         else st)
                      else if getBlacklistedOTP st (userID u) code
                      then (Inl replayedOTP, setOTPAttempts st (userID u))
                      else if \<not> validateDefaultTOTP d code (totpSecret u)
                      then (Inl wrongOTP, setOTPAttempts st (userID u))
                      else
                        (let st1 = blacklistOTP st (userID u) code;
                             j = nano nd;
                             token = signEdDSAJWT cfg cr (clock_exp nd) (clock_iat nd) (clock_nbf nd)
                                       j (userID u) 15;
                             st2 = setOTPSession st1 j (userID u)
                         in (Inr \<lparr> status = ''success'', statusCode = 200,
                                   data = TokenData token,
                                   message = ''OTP verified. Special session has been given to the user.'',
                                   rtype = ''auth'' \<rparr>, st2)))))"

text \<open>
  A sequence of \<open>verifyOTP\<close> calls, one after the other on the same store: the results in
  order, and the final state.
\<close>

fun verifyOTPs ::
  "config \<Rightarrow> crypto \<Rightarrow> deps \<Rightarrow> state \<Rightarrow> (nondet \<times> request) list \<Rightarrow> (error + reply) list \<times> state" where
  "verifyOTPs cfg cr d st [] = ([], st)"
| "verifyOTPs cfg cr d st ((nd, req) # rest) =
     (case verifyOTP cfg cr d st nd req of
        (r, st') \<Rightarrow> (case verifyOTPs cfg cr d st' rest of (rs, st'') \<Rightarrow> (r # rs, st'')))"

text \<open>
  A request presents the credentials of user \<open>uid\<close> when its \<open>Authorization\<close> header parses
  to that user id and a non-empty code.
\<close>

definition presents :: "deps \<Rightarrow> request \<Rightarrow> string \<Rightarrow> string \<Rightarrow> bool" where
  "presents d req uid code =
     (case authorization req of
        None \<Rightarrow> False
      | Some a \<Rightarrow> parseBasicAuth d a = (uid, code) \<and> uid \<noteq> [] \<and> code \<noteq> [])"

subsection \<open>getStatus\<close>

text \<open>
  The two lookups of \<open>getStatus\<close> are calls into services that are not among the sources
  and that may throw: \<open>UserService.getUser({ userID })\<close> and
  \<open>CacheService.getOTPSession(jti)\<close>. They are parameters, with \<open>Inl\<close> for an exception.
\<close>

record services =
  getUser :: "string \<Rightarrow> error + user option"
  getOTPSession :: "string \<Rightarrow> error + string option"

definition sendUserStatus :: "bool \<Rightarrow> bool \<Rightarrow> user option \<Rightarrow> response \<Rightarrow> (error + unit) \<times> response" where
  "sendUserStatus isAuthenticated' isMFA' u res =
     sendResponse
       \<lparr> status = ''success'', statusCode = 200,
         data = StatusData isAuthenticated' isMFA' u,
         message = ''Successfully fetched the user's status!'', rtype = ''auth'' \<rparr> res"

text \<open>
  \<open>extractHeader(req, 'otp-authorization')\<close> followed by \<open>!token\<close>: no header and the empty
  header are both no token.
\<close>

definition extractHeader :: "request \<Rightarrow> header_value option" where
  "extractHeader req =
     (case otp_authorization req of
        None \<Rightarrow> None
      | Some (Text t) \<Rightarrow> if t = [] then None else Some (Text t)
      | Some (JWS t) \<Rightarrow> Some (JWS t))"

text \<open>
  The body of the \<open>try\<close> block. \<open>req.session\<close> is undefined on a request that no session
  middleware has handled, and reading \<open>userID\<close> from it throws. After the comparison of
  the identifiers the source sends the non-MFA status and goes on, without returning, to
  send the MFA status.
\<close>

definition getStatus_try ::
  "services \<Rightarrow> config \<Rightarrow> crypto \<Rightarrow> nondet \<Rightarrow> request \<Rightarrow> response \<Rightarrow> (error + unit) \<times> response" where
  "getStatus_try sv cfg cr nd req res =
     (case req_session req of
        None \<Rightarrow> (Inl (TypeError ''Cannot read properties of undefined (reading 'userID')''), res)
      | Some s \<Rightarrow>
          if ai_userID s = [] then sendUserStatus False False None res
          else
            (case getUser sv (ai_userID s) of
               Inl err \<Rightarrow> (Inl err, res)
             | Inr None \<Rightarrow> sendUserStatus False False None res
             | Inr (Some u) \<Rightarrow>
                 if \<not> isActive u then sendUserStatus False False None res
                 else
                   (case extractHeader req of
                      None \<Rightarrow> sendUserStatus True False (Some u) res
                    | Some token \<Rightarrow>
                        (case verifyEdDSAJWT cfg cr (clock_verify nd) token of
                           Inl _ \<Rightarrow> sendUserStatus True False (Some u) res
                         | Inr decoded \<Rightarrow>
                             if jti decoded = [] then sendUserStatus True False (Some u) res
                             else
                               (case getOTPSession sv (jti decoded) of
                                  Inl err \<Rightarrow> (Inl err, res)
                                | Inr None \<Rightarrow> sendUserStatus True False (Some u) res
                                | Inr (Some uid) \<Rightarrow>
                                    if uid = [] then sendUserStatus True False (Some u) res
                                    else
                                      (case (if ai_userID s \<noteq> uid \<or> sub decoded \<noteq> uid
                                             then sendUserStatus True False (Some u) res
                                             else (Inr (), res)) of
                                         (Inl err, res') \<Rightarrow> (Inl err, res')
                                       | (Inr _, res') \<Rightarrow>
                                           sendUserStatus True True (Some u) res'))))))"

text \<open>
  \<open>getStatus(req, res)\<close>: the \<open>try\<close> block, and on any exception the \<open>catch\<close> block, which
  sends the unauthenticated status. An exception of the \<open>catch\<close> block itself leaves the
  function: \<open>Inl\<close> is the rejected promise.
\<close>

definition getStatus ::
  "services \<Rightarrow> config \<Rightarrow> crypto \<Rightarrow> nondet \<Rightarrow> request \<Rightarrow> response \<Rightarrow> (error + unit) \<times> response" where
  "getStatus sv cfg cr nd req res =
     (case getStatus_try sv cfg cr nd req res of
        (Inl _, res') \<Rightarrow> sendUserStatus False False None res'
      | (Inr u, res') \<Rightarrow> (Inr u, res'))"

section \<open>Notions used by the properties\<close>

text \<open>At most one row of the \<open>Session\<close> table for each user.\<close>

definition oneSessionPerSubject :: "state \<Rightarrow> bool" where
  "oneSessionPerSubject st = (\<forall>k. length (filter (\<lambda>s. session_userPK s = k) (sessions st)) \<le> 1)"

text \<open>
  The two unique indexes of the \<open>Session\<close> table (on \<open>userPK\<close> and on \<open>sessionID\<close>) hold.
\<close>

definition uniqueKeys :: "state \<Rightarrow> bool" where
  "uniqueKeys st \<longleftrightarrow>
     distinct (map session_userPK (sessions st)) \<and> distinct (map sessionID (sessions st))"

text \<open>
  The calls that change the store: a login, a request passing through \<open>hasSession\<close>, a
  session deletion (logout, password update, the session endpoints) and an OTP
  verification; \<open>perform\<close> gives the store after a call.
\<close>

datatype call =
    Login nondet request
  | HasSession nondet request
  | DeleteSession session_where
  | VerifyOTP nondet request

fun perform :: "config \<Rightarrow> crypto \<Rightarrow> deps \<Rightarrow> state \<Rightarrow> call \<Rightarrow> state" where
  "perform cfg cr d st (Login nd req) = snd (login cfg cr d st nd req)"
| "perform cfg cr d st (HasSession nd req) = snd (hasSession cfg cr st nd req)"
| "perform cfg cr d st (DeleteSession w) = snd (deleteSession st w)"
| "perform cfg cr d st (VerifyOTP nd req) = snd (verifyOTP cfg cr d st nd req)"

text \<open>The error of a handler's result, if it is one.\<close>

definition failure :: "error + 'a \<Rightarrow> error option" where
  "failure x = (case x of Inl e \<Rightarrow> Some e | Inr _ \<Rightarrow> None)"

section \<open>Sample inputs\<close>

text \<open>
  A configuration, stand-ins for the cryptographic and credential primitives, one user
  and an empty store, used to evaluate the handlers on concrete requests. The Basic
  header is written \<open>user:code\<close>; the valid code of a user is the first six characters of
  the user's secret.
\<close>

definition cfg0 :: config where
  "cfg0 = \<lparr> JWT_SECRET = ''secret'', JWT_AUDIENCE = ''clients'', JWT_ISSUER = ''auth'',
            JWT_PRIVATE_KEY = ''private'', JWT_PUBLIC_KEY = ''public'' \<rparr>"

definition cr0 :: crypto where
  "cr0 = \<lparr> hmac = (\<lambda>key h p. key @ alg h @ jti p @ sub p),
           edsign = (\<lambda>key h p. ''ed'' @ jti p @ sub p),
           edverify = (\<lambda>key h p s. s = ''ed'' @ jti p @ sub p) \<rparr>"

definition deps0 :: deps where
  "deps0 = \<lparr> getUserByCredentials =
               (\<lambda>us a b c. find (\<lambda>u. username u = a \<or> email u = b \<or> phoneNumber u = c) us),
             verifyPassword = (\<lambda>hash candidate. hash = ''hash:'' @ candidate),
             parseBasicAuth =
               (\<lambda>h. case h of
                      Text t \<Rightarrow> (takeWhile (\<lambda>c. c \<noteq> CHR '':'') t,
                                 drop 1 (dropWhile (\<lambda>c. c \<noteq> CHR '':'') t))
                    | JWS _ \<Rightarrow> ([], [])),
             validateDefaultTOTP = (\<lambda>code secret. code = take 6 secret) \<rparr>"

definition alice :: user where
  "alice = \<lparr> userPK = 1, userID = ''alice-id'', username = ''alice'',
             email = ''alice@example.com'', phoneNumber = ''+100'', password = ''hash:pw'',
             totpSecret = ''123456-alice'', fullName = ''Alice'', isActive = True \<rparr>"

definition st0 :: state where
  "st0 = \<lparr> users = [alice], sessions = [], nextSessionPK = 1, cacheSessions = Map.empty,
           otpAttempts = Map.empty, securityAlertEmailLock = {}, blacklistedOTP = {},
           otpSessions = Map.empty, outbox = [] \<rparr>"

text \<open>All clock readings at second 5; \<open>i\<close> is the fresh identifier of the call.\<close>

definition nd0 :: "string \<Rightarrow> nondet" where
  "nd0 i = \<lparr> clock_verify = 5000, clock_lastActive = 5000, clock_signedIn = 5000,
             clock_exp = 5000, clock_iat = 5000, clock_nbf = 5000,
             uuid = i, default_uuid = i, nano = i \<rparr>"

definition req0 :: request where
  "req0 = \<lparr> preflight = False, authorization = None, otp_authorization = None,
            user_agent = None, body_username = [], body_password = [], req_session = None,
            req_device = ''laptop'', req_ip = ''10.0.0.1'' \<rparr>"

definition loginReq :: "string \<Rightarrow> request" where
  "loginReq pw = req0\<lparr>body_username := ''alice'', body_password := pw\<rparr>"

definition otpReq :: "string \<Rightarrow> request" where
  "otpReq code = req0\<lparr>authorization := Some (Text (''alice-id:'' @ code))\<rparr>"

text \<open>
  The \<open>Session\<close> row and the store after the sample user's first login, which draws the
  identifier \<open>s1\<close>; the token of that login, and a request bearing it.
\<close>

definition session1 :: session where
  "session1 = \<lparr> sessionPK = 1, sessionID = ''s1'', session_userPK = 1, lastActive = 5000,
                signedIn = 5000, device = ''laptop'', ipAddress = ''10.0.0.1'', userAgent = [] \<rparr>"

definition st_s1 :: state where
  "st_s1 = st0\<lparr>sessions := [session1], nextSessionPK := 2, cacheSessions := [''s1'' \<mapsto> ''alice-id'']\<rparr>"

definition token1 :: jws where
  "token1 = signHS256JWT cfg0 cr0 5000 5000 5000 ''s1'' ''alice-id'' (60 * 24)"

definition sessionReq :: request where
  "sessionReq = req0\<lparr>authorization := Some (JWS token1)\<rparr>"

text \<open>The sample store with the user's attempt counter at \<open>n\<close>, and two OTP calls.\<close>

definition st_strikes :: "nat \<Rightarrow> state" where
  "st_strikes n = st0\<lparr>otpAttempts := [''alice-id'' \<mapsto> n]\<rparr>"

definition sampleCalls :: "(nondet \<times> request) list" where
  "sampleCalls = [(nd0 ''n1'', otpReq ''123456''), (nd0 ''n2'', otpReq ''000000'')]"

text \<open>
  A status request in the sample user's session that presents a step-up token issued to
  \<open>uid\<close>, with the OTP-session cache mapping the token's id to \<open>owner\<close>.
\<close>

definition aliceSession :: AuthInfo where
  "aliceSession = \<lparr> ai_userPK = 1, ai_userID = ''alice-id'', ai_tokenID = ''s1'',
                    ai_sessionPK = 1, ai_sessionID = ''s1'', ai_lastActive = 5000,
                    ai_signedIn = 5000, ai_device = ''laptop'', ai_ip = ''10.0.0.1'' \<rparr>"

definition stepUpToken :: "string \<Rightarrow> jws" where
  "stepUpToken uid = signEdDSAJWT cfg0 cr0 5000 5000 5000 ''n1'' uid 15"

definition statusServices :: "string \<Rightarrow> services" where
  "statusServices owner =
     \<lparr> getUser = (\<lambda>i. Inr (find (\<lambda>u. userID u = i) [alice])),
       getOTPSession = (\<lambda>j. Inr ([''n1'' \<mapsto> owner] j)) \<rparr>"

definition statusReq :: "string \<Rightarrow> request" where
  "statusReq uid = req0\<lparr>req_session := Some aliceSession,
                        otp_authorization := Some (JWS (stepUpToken uid))\<rparr>"

section \<open>Properties\<close>

subsection \<open>JavaScript numbers\<close>

lemma round53_small: "\<bar>n\<bar> < 2 ^ 53 \<Longrightarrow> round53 n = n"
proof -
  assume "\<bar>n\<bar> < 2 ^ 53"
  then have "nat \<bar>n\<bar> < 2 ^ 53" by (simp add: nat_less_iff)
  then have "spacing (nat \<bar>n\<bar>) = 1" by (subst spacing.simps) simp
  then show ?thesis by (simp add: round53_def Let_def mult_sgn_abs)
qed

lemma js_plus_exact: "\<bar>a + b\<bar> < 2 ^ 53 \<Longrightarrow> js_plus a b = a + b"
  by (simp add: js_plus_def round53_small)

lemma js_times_exact: "\<bar>a * b\<bar> < 2 ^ 53 \<Longrightarrow> js_times a b = a * b"
  by (simp add: js_times_def round53_small)

subsection \<open>The session table\<close>


lemma distinct_map_filter_le1:
  "distinct (map f xs) \<longleftrightarrow> (\<forall>k. length (filter (\<lambda>s. f s = k) xs) \<le> 1)"
proof (induction xs)
  case Nil
  then show ?case by simp
next
  case (Cons x xs)
  show ?case
  proof
    assume d: "distinct (map f (x # xs))"
    then have nx: "\<forall>y \<in> set xs. f y \<noteq> f x" by (force simp: image_iff)
    from d have dx: "distinct (map f xs)" by simp
    from nx have "filter (\<lambda>s. f s = f x) xs = []" by (simp add: filter_empty_conv)
    with dx Cons.IH show "\<forall>k. length (filter (\<lambda>s. f s = k) (x # xs)) \<le> 1" by auto
  next
    assume a: "\<forall>k. length (filter (\<lambda>s. f s = k) (x # xs)) \<le> 1"
    then have "length (filter (\<lambda>s. f s = f x) (x # xs)) \<le> 1" by blast
    then have "filter (\<lambda>s. f s = f x) xs = []" by simp
    then have nx: "f x \<notin> f ` set xs" by (force simp: filter_empty_conv)
    have "\<forall>k. length (filter (\<lambda>s. f s = k) xs) \<le> 1"
    proof
      fix k
      from a have "length (filter (\<lambda>s. f s = k) (x # xs)) \<le> 1" by blast
      then show "length (filter (\<lambda>s. f s = k) xs) \<le> 1" by (simp split: if_splits)
    qed
    with Cons.IH have "distinct (map f xs)" by simp
    with nx show "distinct (map f (x # xs))" by simp
  qed
qed

lemma oneSessionPerSubject_distinct:
  "oneSessionPerSubject st \<longleftrightarrow> distinct (map session_userPK (sessions st))"
  by (simp add: oneSessionPerSubject_def distinct_map_filter_le1)

lemma writeData_keys [simp]:
  "session_userPK (writeData sd s) = session_userPK s"
  "sessionID (writeData sd s) = sessionID s"
  "sessionPK (writeData sd s) = sessionPK s"
  by (simp_all add: writeData_def)

lemma setSession_fields [simp]:
  "sessions (setSession st i u) = sessions st"
  "users (setSession st i u) = users st"
  "cacheSessions (setSession st i u) = (cacheSessions st)(i \<mapsto> u)"
  by (simp_all add: setSession_def)

text \<open>What a successful createOrUpdateSession leaves behind.\<close>

lemma createOrUpdateSession_Inr:
  assumes "createOrUpdateSession st nd u sd = (Inr new, st')"
  shows "session_userPK new = userPK u"
    and "set (sessions st') = insert new {s \<in> set (sessions st). session_userPK s \<noteq> userPK u}"
    and "\<forall>s \<in> set (sessions st). session_userPK s \<noteq> userPK u \<longrightarrow> sessionID s \<noteq> sessionID new"
    and "cacheSessions st' = (cacheSessions st)(sessionID new \<mapsto> userID u)"
    and "users st' = users st"
    and "map session_userPK (sessions st') = map session_userPK (sessions st)
         \<or> (userPK u \<notin> session_userPK ` set (sessions st)
            \<and> map session_userPK (sessions st') = map session_userPK (sessions st) @ [userPK u])"
    and "find (\<lambda>s. session_userPK s = userPK u) (sessions st) \<noteq> None \<longrightarrow> sessionID new = uuid nd"
proof -
  show "session_userPK new = userPK u"
    using assms
    by (auto simp: createOrUpdateSession_def Let_def find_Some_iff split: option.splits if_splits)
  show "set (sessions st') = insert new {s \<in> set (sessions st). session_userPK s \<noteq> userPK u}"
  proof (cases "find (\<lambda>s. session_userPK s = userPK u) (sessions st)")
    case None
    then have "\<forall>s \<in> set (sessions st). session_userPK s \<noteq> userPK u"
      by (simp add: find_None_iff)
    with None assms show ?thesis
      by (auto simp: createOrUpdateSession_def Let_def split: if_splits)
  next
    case (Some old)
    then have "old \<in> set (sessions st)" "session_userPK old = userPK u"
      by (auto simp: find_Some_iff)
    with Some assms show ?thesis
      by (auto simp: createOrUpdateSession_def Let_def split: if_splits)
  qed
  show "\<forall>s \<in> set (sessions st). session_userPK s \<noteq> userPK u \<longrightarrow> sessionID s \<noteq> sessionID new"
    using assms
    by (auto simp: createOrUpdateSession_def Let_def split: option.splits if_splits)
  show "cacheSessions st' = (cacheSessions st)(sessionID new \<mapsto> userID u)"
    using assms
    by (auto simp: createOrUpdateSession_def Let_def split: option.splits if_splits)
  show "users st' = users st"
    using assms
    by (auto simp: createOrUpdateSession_def Let_def split: option.splits if_splits)
  show "map session_userPK (sessions st') = map session_userPK (sessions st)
         \<or> (userPK u \<notin> session_userPK ` set (sessions st)
            \<and> map session_userPK (sessions st') = map session_userPK (sessions st) @ [userPK u])"
  proof (cases "find (\<lambda>s. session_userPK s = userPK u) (sessions st)")
    case None
    then have "userPK u \<notin> session_userPK ` set (sessions st)"
      by (auto simp: find_None_iff)
    with None assms show ?thesis
      by (auto simp: createOrUpdateSession_def Let_def split: if_splits)
  next
    case (Some old)
    then have "session_userPK old = userPK u" by (auto simp: find_Some_iff)
    with Some assms have "map session_userPK (sessions st') = map session_userPK (sessions st)"
      by (auto simp: createOrUpdateSession_def Let_def split: if_splits)
    then show ?thesis by simp
  qed
  show "find (\<lambda>s. session_userPK s = userPK u) (sessions st) \<noteq> None \<longrightarrow> sessionID new = uuid nd"
    using assms
    by (auto simp: createOrUpdateSession_def Let_def split: option.splits if_splits)
qed

lemma createOrUpdateSession_Inl:
  "createOrUpdateSession st nd u sd = (Inl e, st') \<Longrightarrow> st' = st"
  by (auto simp: createOrUpdateSession_def Let_def split: option.splits if_splits)

lemma createOrUpdateSession_inv:
  assumes "oneSessionPerSubject st" and "createOrUpdateSession st nd u sd = (r, st')"
  shows "oneSessionPerSubject st'"
proof (cases r)
  case (Inl e)
  with assms createOrUpdateSession_Inl show ?thesis by blast
next
  case (Inr new)
  with assms(2) createOrUpdateSession_Inr(6)[of st nd u sd new st'] assms(1)
  show ?thesis by (auto simp: oneSessionPerSubject_distinct)
qed

lemma distinct_map_eqD:
  "distinct (map f xs) \<Longrightarrow> x \<in> set xs \<Longrightarrow> y \<in> set xs \<Longrightarrow> f x = f y \<Longrightarrow> x = y"
  by (meson distinct_map inj_onD)

lemma map_map_same: "(\<forall>x \<in> set xs. f (g x) = f x) \<Longrightarrow> map f (map g xs) = map f xs"
  by (induction xs) auto

lemma createOrUpdateSession_uniqueKeys:
  assumes inv: "uniqueKeys st" and c: "createOrUpdateSession st nd u sd = (r, st')"
  shows "uniqueKeys st'"
proof (cases "find (\<lambda>s. session_userPK s = userPK u) (sessions st)")
  case None
  then have no: "\<forall>s \<in> set (sessions st). session_userPK s \<noteq> userPK u"
    by (simp add: find_None_iff)
  show ?thesis
  proof (cases "\<exists>s \<in> set (sessions st). sessionID s = default_uuid nd")
    case True
    with None c have "st' = st" by (simp add: createOrUpdateSession_def Let_def)
    with inv show ?thesis by simp
  next
    case False
    with None c have "sessions st' = sessions st @
        [writeData sd \<lparr> sessionPK = nextSessionPK st, sessionID = default_uuid nd,
                   session_userPK = userPK u, lastActive = 0, signedIn = 0, device = [],
                   ipAddress = [], userAgent = [] \<rparr>]"
      by (auto simp: createOrUpdateSession_def Let_def)
    with inv no False show ?thesis by (auto simp: uniqueKeys_def)
  qed
next
  case (Some old)
  then have old: "old \<in> set (sessions st)" "session_userPK old = userPK u"
    by (auto simp: find_Some_iff)
  let ?new = "writeData sd (old\<lparr>sessionID := uuid nd\<rparr>)"
  let ?g = "\<lambda>s. if session_userPK s = userPK u then ?new else s"
  show ?thesis
  proof (cases "\<exists>s \<in> set (sessions st). session_userPK s \<noteq> userPK u \<and> sessionID s = uuid nd")
    case True
    with Some c have "st' = st" by (simp add: createOrUpdateSession_def Let_def)
    with inv show ?thesis by simp
  next
    case False
    with Some c have rows: "sessions st' = map ?g (sessions st)"
      by (auto simp: createOrUpdateSession_def Let_def)
    have pk: "map session_userPK (map ?g (sessions st)) = map session_userPK (sessions st)"
      by (rule map_map_same) (use old in auto)
    have d1: "distinct (map session_userPK (sessions st))" and d2: "distinct (map sessionID (sessions st))"
      using inv by (simp_all add: uniqueKeys_def)
    have dx: "distinct (sessions st)" using d1 by (simp add: distinct_map)
    have "inj_on (sessionID \<circ> ?g) (set (sessions st))"
    proof (rule inj_onI)
      fix x y
      assume x: "x \<in> set (sessions st)" and y: "y \<in> set (sessions st)"
        and e: "(sessionID \<circ> ?g) x = (sessionID \<circ> ?g) y"
      show "x = y"
      proof (cases "session_userPK x = userPK u")
        case xk: True
        show ?thesis
        proof (cases "session_userPK y = userPK u")
          case True
          with xk x y d1 show ?thesis by (auto dest: distinct_map_eqD)
        next
          case yk: False
          with xk e have "sessionID y = uuid nd" by simp
          with yk y False show ?thesis by blast
        qed
      next
        case xk: False
        show ?thesis
        proof (cases "session_userPK y = userPK u")
          case True
          with xk e have "sessionID x = uuid nd" by simp
          with xk x False show ?thesis by blast
        next
          case False
          with xk e have "sessionID x = sessionID y" by simp
          with x y d2 show ?thesis by (auto dest: distinct_map_eqD)
        qed
      qed
    qed
    with dx have "distinct (map (sessionID \<circ> ?g) (sessions st))"
      by (simp add: distinct_map)
    then have ids: "distinct (map sessionID (map ?g (sessions st)))"
      by (simp only: map_map)
    from d1 ids show ?thesis
      unfolding uniqueKeys_def rows pk by simp
  qed
qed

lemma updateSession_uniqueKeys:
  assumes inv: "uniqueKeys st" and up: "updateSession st (BySessionID sid) sd = (r, st')"
  shows "uniqueKeys st'"
proof (cases "find (matches (BySessionID sid)) (sessions st)")
  case None
  with inv up show ?thesis by (simp add: updateSession_def)
next
  case (Some old)
  then have old: "old \<in> set (sessions st)" "sessionID old = sid"
    by (auto simp: find_Some_iff)
  have d2: "distinct (map sessionID (sessions st))" using inv by (simp add: uniqueKeys_def)
  have only: "\<forall>s \<in> set (sessions st). sessionID s = sid \<longrightarrow> s = old"
    using old d2 by (auto dest: distinct_map_eqD)
  let ?g = "\<lambda>s. if matches (BySessionID sid) s then writeData sd old else s"
  have rows: "sessions st' = map ?g (sessions st)"
    using Some up by (auto simp: updateSession_def Let_def)
  have pk: "map session_userPK (map ?g (sessions st)) = map session_userPK (sessions st)"
    by (rule map_map_same) (use only in auto)
  have ids: "map sessionID (map ?g (sessions st)) = map sessionID (sessions st)"
    by (rule map_map_same) (use only in auto)
  from inv show ?thesis
    unfolding uniqueKeys_def rows pk ids .
qed

lemma deleteSession_uniqueKeys:
  assumes inv: "uniqueKeys st"
  shows "uniqueKeys (snd (deleteSession st w))"
  using inv
  by (auto simp: deleteSession_def uniqueKeys_def CacheService_deleteSession_def distinct_map_filter
           split: option.splits)

lemma hasSession_uniqueKeys:
  assumes inv: "uniqueKeys st"
  shows "uniqueKeys (snd (hasSession cfg cr st nd req))"
proof -
  have del: "\<And>sid. uniqueKeys (CacheService_deleteSession st sid)"
    using inv by (simp add: uniqueKeys_def CacheService_deleteSession_def)
  show ?thesis
    using inv del
    by (auto simp: hasSession_def Let_def
             split: option.splits sum.splits prod.splits if_splits
             intro: updateSession_uniqueKeys[OF inv])
qed

lemma login_uniqueKeys:
  assumes inv: "uniqueKeys st"
  shows "uniqueKeys (snd (login cfg cr d st nd req))"
proof (cases "getUserByCredentials d (users st) (body_username req) (body_username req) (body_username req)")
  case None
  with inv show ?thesis by (simp add: login_def Let_def)
next
  case (Some u)
  let ?sd = "\<lparr> sd_lastActive = clock_lastActive nd, sd_signedIn = clock_signedIn nd,
               sd_device = req_device req, sd_ipAddress = req_ip req,
               sd_userAgent = (case user_agent req of None \<Rightarrow> [] | Some a \<Rightarrow> a) \<rparr>"
  obtain x st'' where c: "createOrUpdateSession st nd u ?sd = (x, st'')"
    by (cases "createOrUpdateSession st nd u ?sd")
  from createOrUpdateSession_uniqueKeys[OF inv c] have "uniqueKeys st''" .
  with Some c inv show ?thesis
    by (cases x) (simp_all add: login_def Let_def)
qed

lemma verifyOTP_sessions: "sessions (snd (verifyOTP cfg cr d st nd req)) = sessions st"
  by (auto simp: verifyOTP_def Let_def setSecurityAlertEmailLock_def setOTPAttempts_def
        blacklistOTP_def setOTPSession_def split: option.splits prod.splits)

lemma perform_uniqueKeys: "uniqueKeys st \<Longrightarrow> uniqueKeys (perform cfg cr d st c)"
  by (cases c)
     (simp_all add: login_uniqueKeys hasSession_uniqueKeys deleteSession_uniqueKeys,
      simp add: uniqueKeys_def verifyOTP_sessions)

lemma foldl_perform_uniqueKeys:
  "uniqueKeys st \<Longrightarrow> uniqueKeys (foldl (perform cfg cr d) st cs)"
  by (induction cs arbitrary: st) (simp_all add: perform_uniqueKeys)

lemma uniqueKeys_oneSessionPerSubject: "uniqueKeys st \<Longrightarrow> oneSessionPerSubject st"
  by (simp add: uniqueKeys_def oneSessionPerSubject_distinct)

lemma login_Inr:
  assumes "login cfg cr d st nd req = (Inr r, st')"
      and "getUserByCredentials d (users st) (body_username req) (body_username req) (body_username req) = Some u"
  shows "\<exists>sd new. createOrUpdateSession st nd u sd = (Inr new, st') \<and> loginSessionID r = sessionID new"
proof -
  let ?sd = "\<lparr> sd_lastActive = clock_lastActive nd, sd_signedIn = clock_signedIn nd,
               sd_device = req_device req, sd_ipAddress = req_ip req,
               sd_userAgent = (case user_agent req of None \<Rightarrow> [] | Some a \<Rightarrow> a) \<rparr>"
  obtain x st'' where c: "createOrUpdateSession st nd u ?sd = (x, st'')"
    by (cases "createOrUpdateSession st nd u ?sd")
  show ?thesis
  proof (cases x)
    case (Inl e)
    with c assms show ?thesis
      by (simp add: login_def Let_def split: if_splits)
  next
    case (Inr new)
    with c assms have "st'' = st'" "loginSessionID r = sessionID new"
      by (auto simp: login_def Let_def loginSessionID_def signHS256JWT_def split: if_splits)
    with c Inr show ?thesis by blast
  qed
qed

lemma matches_BySessionID: "matches (BySessionID i) = (\<lambda>s. sessionID s = i)"
  by (rule ext) simp

subsection \<open>hasSession\<close>

lemma map_sum_Some_Inr [simp]: "map_sum id Some v = Inr (Some p) \<longleftrightarrow> v = Inr p"
  by (cases v) auto

lemma map_sum_Some_Inr_None [simp]: "map_sum id Some v \<noteq> Inr None"
  by (cases v) auto

lemma hasSession_absent:
  assumes "getUserIDFromSession st sid = None \<or> getSession st (BySessionID sid) = None"
      and "verifySessionJwt cfg cr (clock_verify nd) (authorization req) = Inr p"
      and "jti p = sid"
  shows "fst (hasSession cfg cr st nd req) = Inl integrity"
  using assms by (auto simp: hasSession_def split: option.splits)

lemma hasSession_Inr:
  assumes "hasSession cfg cr st nd req = (Inr info, st')"
  shows "\<exists>p. verifySessionJwt cfg cr (clock_verify nd) (authorization req) = Inr p
           \<and> ai_sessionID info = jti p
           \<and> getUserIDFromSession st (jti p) = Some (ai_userID info)
           \<and> getSession st (BySessionID (jti p)) \<noteq> None"
  using assms
  by (auto simp: hasSession_def Let_def split: option.splits if_splits sum.splits prod.splits)

lemma token1_valid:
  "verifySessionJwt cfg0 cr0 (clock_verify (nd0 i)) (authorization sessionReq) = Inr (payload token1)"
  by (simp add: verifySessionJwt_def sessionReq_def req0_def token1_def signHS256JWT_def
        cfg0_def cr0_def nd0_def checkClaims_def seconds_def Let_def js_plus_exact js_times_exact)

lemma token1_jti: "jti (payload token1) = ''s1''"
  by (simp add: token1_def signHS256JWT_def Let_def)

text \<open>
  C1. A request bears a session token that verifies, with \<open>jti\<close> equal to \<open>sid\<close>. Deleting
  \<open>sid\<close> from the session cache leaves no entry for it; whenever the cache has no entry
  for \<open>sid\<close>, or the \<open>Session\<close> table no row, \<open>hasSession\<close> answers with the 401 error; and
  whenever \<open>hasSession\<close> lets the request through, the cache had an entry for \<open>sid\<close>, the
  user of that entry is the one the request proceeds as, and the table had a row.
\<close>

theorem hasSession_rejects_removed_session:
  assumes valid: "verifySessionJwt cfg cr (clock_verify nd) (authorization req) = Inr p"
      and sid: "jti p = sid"
  shows "getUserIDFromSession (CacheService_deleteSession st_before sid) sid = None
       \<and> (getUserIDFromSession st sid = None \<or> getSession st (BySessionID sid) = None \<longrightarrow>
            fst (hasSession cfg cr st nd req)
              = Inl (AppError ''Failed to verify the integrity of the token.'' 401))
       \<and> (\<forall>info st'. hasSession cfg cr st nd req = (Inr info, st') \<longrightarrow>
             getUserIDFromSession st sid = Some (ai_userID info)
           \<and> getSession st (BySessionID sid) \<noteq> None)"
proof (intro conjI impI allI)
  show "getUserIDFromSession (CacheService_deleteSession st_before sid) sid = None"
    by (simp add: getUserIDFromSession_def CacheService_deleteSession_def)
next
  assume "getUserIDFromSession st sid = None \<or> getSession st (BySessionID sid) = None"
  from hasSession_absent[OF this valid sid]
  show "fst (hasSession cfg cr st nd req)
          = Inl (AppError ''Failed to verify the integrity of the token.'' 401)"
    by (simp add: integrity_def)
next
  fix info st'
  assume "hasSession cfg cr st nd req = (Inr info, st')"
  from hasSession_Inr[OF this] valid sid
  show "getUserIDFromSession st sid = Some (ai_userID info)" by auto
next
  fix info st'
  assume "hasSession cfg cr st nd req = (Inr info, st')"
  from hasSession_Inr[OF this] valid sid
  show "getSession st (BySessionID sid) \<noteq> None" by auto
qed

theorem hasSession_rejects_removed_session_witness:
  "(\<exists>info st'. hasSession cfg0 cr0 st_s1 (nd0 ''x'') sessionReq = (Inr info, st')
        \<and> ai_userID info = ''alice-id'')
   \<and> fst (hasSession cfg0 cr0 (CacheService_deleteSession st_s1 ''s1'') (nd0 ''x'') sessionReq)
       = Inl (AppError ''Failed to verify the integrity of the token.'' 401)"
proof -
  have ok: "\<exists>info st'. hasSession cfg0 cr0 st_s1 (nd0 ''x'') sessionReq = (Inr info, st')
              \<and> ai_userID info = ''alice-id''"
    using token1_valid[of "''x''"] token1_jti
    by (simp add: hasSession_def sessionReq_def req0_def st_s1_def st0_def session1_def alice_def
          getUserIDFromSession_def getSession_def getUserComplete_def updateSession_def
          writeData_def Let_def nd0_def)
  from hasSession_rejects_removed_session[where st = "CacheService_deleteSession st_s1 ''s1''"
         and st_before = st_s1, OF token1_valid token1_jti, of "''x''"] ok
  show ?thesis by simp
qed

subsection \<open>Consecutive logins\<close>

lemma login1:
  "\<exists>r1. login cfg0 cr0 deps0 st0 (nd0 ''s1'') (loginReq ''pw'') = (Inr r1, st_s1)
        \<and> loginSessionID r1 = ''s1''"
  by (simp add: login_def Let_def deps0_def st0_def st_s1_def session1_def alice_def nd0_def
        loginReq_def req0_def createOrUpdateSession_def writeData_def setSession_def
        signHS256JWT_def loginSessionID_def)

lemma login2:
  "\<exists>r2 st2. login cfg0 cr0 deps0 st_s1 (nd0 ''s2'') (loginReq ''pw'') = (Inr r2, st2)
        \<and> loginSessionID r2 = ''s2''"
  by (simp add: login_def Let_def deps0_def st0_def st_s1_def session1_def alice_def nd0_def
        loginReq_def req0_def createOrUpdateSession_def writeData_def setSession_def
        signHS256JWT_def loginSessionID_def)

lemma keys0: "uniqueKeys st0"
  by (simp add: uniqueKeys_def st0_def)

lemma who0:
  "getUserByCredentials deps0 [alice] (body_username (loginReq pw))
     (body_username (loginReq pw)) (body_username (loginReq pw)) = Some alice"
  by (simp add: deps0_def alice_def loginReq_def req0_def)

text \<open>
  C2, as stated, fails: after the sample user's two logins, with session identifiers
  \<open>s1\<close> and then \<open>s2\<close>, the session cache still maps \<open>s1\<close> to the user, beside \<open>s2\<close>.
\<close>

theorem first_session_stays_in_cache:
  "failure (fst (login cfg0 cr0 deps0 st0 (nd0 ''s1'') (loginReq ''pw''))) = None
   \<and> snd (login cfg0 cr0 deps0 st0 (nd0 ''s1'') (loginReq ''pw'')) = st_s1
   \<and> getUserIDFromSession st_s1 ''s1'' = Some ''alice-id''
   \<and> failure (fst (login cfg0 cr0 deps0 st_s1 (nd0 ''s2'') (loginReq ''pw''))) = None
   \<and> getUserIDFromSession (snd (login cfg0 cr0 deps0 st_s1 (nd0 ''s2'') (loginReq ''pw''))) ''s2''
       = Some ''alice-id''
   \<and> getUserIDFromSession (snd (login cfg0 cr0 deps0 st_s1 (nd0 ''s2'') (loginReq ''pw''))) ''s1''
       = Some ''alice-id''"
  by (simp add: login_def Let_def deps0_def st0_def st_s1_def session1_def alice_def nd0_def
        loginReq_def req0_def createOrUpdateSession_def writeData_def setSession_def
        getUserIDFromSession_def failure_def)

text \<open>
  C2, amended. Two consecutive logins of the same user \<open>u\<close>, the second drawing an
  identifier other than the first login's. After the second login the \<open>Session\<close> table
  has a row with the second session identifier, owned by \<open>u\<close>, and a lookup of the first
  login's identifier in the table finds nothing; the session cache maps the second
  identifier to the user's id and still maps the first one to it; \<open>hasSession\<close> refuses a
  request bearing a verified token of the first session and, the identifiers not being
  empty, deletes the first identifier from the cache; and after each of the two logins, as
  after any sequence of calls on a table whose unique indexes hold, the table has at most
  one row for each user.
\<close>

theorem second_login_supersedes_first:
  assumes keys: "uniqueKeys st"
      and who1: "getUserByCredentials d (users st) (body_username req1) (body_username req1)
                   (body_username req1) = Some u"
      and l1: "login cfg cr d st nd1 req1 = (Inr r1, st1)"
      and who2: "getUserByCredentials d (users st1) (body_username req2) (body_username req2)
                   (body_username req2) = Some u"
      and l2: "login cfg cr d st1 nd2 req2 = (Inr r2, st2)"
      and fresh: "uuid nd2 \<noteq> loginSessionID r1"
  shows "(\<exists>row. getSession st2 (BySessionID (loginSessionID r2)) = Some row
                \<and> session_userPK row = userPK u)
       \<and> getSession st2 (BySessionID (loginSessionID r1)) = None
       \<and> getUserIDFromSession st2 (loginSessionID r2) = Some (userID u)
       \<and> getUserIDFromSession st2 (loginSessionID r1) = Some (userID u)
       \<and> (\<forall>nd req p. verifySessionJwt cfg cr (clock_verify nd) (authorization req) = Inr p
               \<and> jti p = loginSessionID r1 \<longrightarrow>
             fst (hasSession cfg cr st2 nd req)
               = Inl (AppError ''Failed to verify the integrity of the token.'' 401)
           \<and> (\<not> preflight req \<and> loginSessionID r1 \<noteq> [] \<and> userID u \<noteq> [] \<longrightarrow>
                getUserIDFromSession (snd (hasSession cfg cr st2 nd req)) (loginSessionID r1)
                  = None))
       \<and> oneSessionPerSubject st1 \<and> oneSessionPerSubject st2
       \<and> (\<forall>calls. oneSessionPerSubject (foldl (perform cfg cr d) st calls))"
proof -
  have inv: "oneSessionPerSubject st" using keys by (rule uniqueKeys_oneSessionPerSubject)
  have always: "\<forall>calls. oneSessionPerSubject (foldl (perform cfg cr d) st calls)"
    using keys by (simp add: foldl_perform_uniqueKeys uniqueKeys_oneSessionPerSubject)
  from login_Inr[OF l1 who1] obtain sd1 new1 where
    c1: "createOrUpdateSession st nd1 u sd1 = (Inr new1, st1)" and s1: "loginSessionID r1 = sessionID new1"
    by blast
  from login_Inr[OF l2 who2] obtain sd2 new2 where
    c2: "createOrUpdateSession st1 nd2 u sd2 = (Inr new2, st2)" and s2: "loginSessionID r2 = sessionID new2"
    by blast
  note a = createOrUpdateSession_Inr[OF c1] and b = createOrUpdateSession_Inr[OF c2]
  have inv1: "oneSessionPerSubject st1" using inv c1 by (rule createOrUpdateSession_inv)
  have inv2: "oneSessionPerSubject st2" using inv1 c2 by (rule createOrUpdateSession_inv)
  have "new1 \<in> set (sessions st1)" using a(2) by simp
  then have "find (\<lambda>s. session_userPK s = userPK u) (sessions st1) \<noteq> None"
    using a(1) by (auto simp: find_None_iff)
  then have id2: "sessionID new2 = uuid nd2" using b(7) by simp
  have rows2: "set (sessions st2) = insert new2 {s \<in> set (sessions st). session_userPK s \<noteq> userPK u}"
    using a(1) a(2) b(2) by auto
  have others1: "\<forall>s \<in> set (sessions st2). s \<noteq> new2 \<longrightarrow> sessionID s \<noteq> sessionID new1"
    using rows2 a(3) by auto
  have old_gone: "\<forall>s \<in> set (sessions st2). sessionID s \<noteq> sessionID new1"
    using others1 id2 fresh s1 by auto
  have gone: "getSession st2 (BySessionID (loginSessionID r1)) = None"
    using old_gone s1 by (simp add: getSession_def find_None_iff)
  have "\<exists>row. find (\<lambda>s. sessionID s = sessionID new2) (sessions st2) = Some row"
    using rows2 by (cases "find (\<lambda>s. sessionID s = sessionID new2) (sessions st2)")
                   (auto simp: find_None_iff)
  then obtain row where row: "find (\<lambda>s. sessionID s = sessionID new2) (sessions st2) = Some row"
    by blast
  then have "row \<in> set (sessions st2)" "sessionID row = sessionID new2"
    by (auto simp: find_Some_iff)
  moreover have "\<forall>s \<in> set (sessions st1). session_userPK s \<noteq> userPK u \<longrightarrow> sessionID s \<noteq> sessionID new2"
    using b(3) .
  ultimately have "session_userPK row = userPK u"
    using b(1) b(2) by auto
  with row s2 have there: "\<exists>row. getSession st2 (BySessionID (loginSessionID r2)) = Some row
                \<and> session_userPK row = userPK u"
    by (simp add: getSession_def matches_BySessionID)
  have cache: "getUserIDFromSession st2 (loginSessionID r2) = Some (userID u)"
    using b(4) s2 by (simp add: getUserIDFromSession_def)
  have stays: "getUserIDFromSession st2 (loginSessionID r1) = Some (userID u)"
    using a(4) b(4) s1 id2 fresh by (simp add: getUserIDFromSession_def)
  have refused: "\<forall>nd req p. verifySessionJwt cfg cr (clock_verify nd) (authorization req) = Inr p
               \<and> jti p = loginSessionID r1 \<longrightarrow>
             fst (hasSession cfg cr st2 nd req)
               = Inl (AppError ''Failed to verify the integrity of the token.'' 401)
           \<and> (\<not> preflight req \<and> loginSessionID r1 \<noteq> [] \<and> userID u \<noteq> [] \<longrightarrow>
                getUserIDFromSession (snd (hasSession cfg cr st2 nd req)) (loginSessionID r1)
                  = None)"
  proof (intro allI impI conjI)
    fix nd :: nondet and req :: request and p :: JWTPayload
    assume v: "verifySessionJwt cfg cr (clock_verify nd) (authorization req) = Inr p
               \<and> jti p = loginSessionID r1"
    with hasSession_absent[of st2 "loginSessionID r1" cfg cr nd req p] gone
    show "fst (hasSession cfg cr st2 nd req)
               = Inl (AppError ''Failed to verify the integrity of the token.'' 401)"
      by (simp add: integrity_def)
    assume "\<not> preflight req \<and> loginSessionID r1 \<noteq> [] \<and> userID u \<noteq> []"
    with v gone stays
    have "hasSession cfg cr st2 nd req
            = (Inl integrity, CacheService_deleteSession st2 (loginSessionID r1))"
      by (simp add: hasSession_def)
    then show "getUserIDFromSession (snd (hasSession cfg cr st2 nd req)) (loginSessionID r1) = None"
      by (simp add: getUserIDFromSession_def CacheService_deleteSession_def)
  qed
  from there cache stays gone refused inv1 inv2 always show ?thesis by blast
qed

theorem second_login_supersedes_first_witness:
  "\<exists>r1 r2 st2.
     login cfg0 cr0 deps0 st0 (nd0 ''s1'') (loginReq ''pw'') = (Inr r1, st_s1)
   \<and> login cfg0 cr0 deps0 st_s1 (nd0 ''s2'') (loginReq ''pw'') = (Inr r2, st2)
   \<and> loginSessionID r1 = ''s1'' \<and> loginSessionID r2 = ''s2''
   \<and> getSession st2 (BySessionID ''s1'') = None
   \<and> getUserIDFromSession st2 ''s2'' = Some ''alice-id''
   \<and> getUserIDFromSession st2 ''s1'' = Some ''alice-id''
   \<and> (\<exists>row. getSession st2 (BySessionID ''s2'') = Some row \<and> session_userPK row = 1)
   \<and> fst (hasSession cfg0 cr0 st2 (nd0 ''x'') sessionReq)
        = Inl (AppError ''Failed to verify the integrity of the token.'' 401)
   \<and> getUserIDFromSession (snd (hasSession cfg0 cr0 st2 (nd0 ''x'') sessionReq)) ''s1'' = None
   \<and> oneSessionPerSubject st2"
proof -
  obtain r1 where l1: "login cfg0 cr0 deps0 st0 (nd0 ''s1'') (loginReq ''pw'') = (Inr r1, st_s1)"
    and s1: "loginSessionID r1 = ''s1''"
    using login1 by blast
  obtain r2 st2 where l2: "login cfg0 cr0 deps0 st_s1 (nd0 ''s2'') (loginReq ''pw'') = (Inr r2, st2)"
    and s2: "loginSessionID r2 = ''s2''"
    using login2 by blast
  have who1: "getUserByCredentials deps0 (users st0) (body_username (loginReq ''pw''))
               (body_username (loginReq ''pw'')) (body_username (loginReq ''pw'')) = Some alice"
    using who0 by (simp add: st0_def)
  have who2: "getUserByCredentials deps0 (users st_s1) (body_username (loginReq ''pw''))
               (body_username (loginReq ''pw'')) (body_username (loginReq ''pw'')) = Some alice"
    using who0 by (simp add: st_s1_def st0_def)
  have fresh: "uuid (nd0 ''s2'') \<noteq> loginSessionID r1"
    using s1 by (simp add: nd0_def)
  have np: "\<not> preflight sessionReq" by (simp add: sessionReq_def req0_def)
  from second_login_supersedes_first[OF keys0 who1 l1 who2 l2 fresh] l1 l2 s1 s2
    token1_valid[of "''x''"] token1_jti np
  show ?thesis by (auto simp: alice_def)
qed

subsection \<open>verifyOTP\<close>

lemma getUserComplete_userID: "getUserComplete st uid = Some u \<Longrightarrow> userID u = uid"
  by (auto simp: getUserComplete_def find_Some_iff)

text \<open>One lemma for each branch of verifyOTP that a request presenting credentials can take.\<close>

lemma verifyOTP_locked:
  assumes "presents d req uid code" and "getUserComplete st uid = Some u"
      and "getOTPAttempts st uid = Some 3"
  shows "verifyOTP cfg cr d st nd req =
           (Inl lockedOut,
            if getSecurityAlertEmailLock st uid then st
            else st\<lparr>securityAlertEmailLock := insert uid (securityAlertEmailLock st),
                    outbox := outbox st @ [Notification (email u) (fullName u)]\<rparr>)"
  using assms getUserComplete_userID[OF assms(2)]
  by (auto simp: verifyOTP_def presents_def setSecurityAlertEmailLock_def Let_def
           split: option.splits)

lemma verifyOTP_replayed:
  assumes "presents d req uid code" and "getUserComplete st uid = Some u"
      and "getOTPAttempts st uid \<noteq> Some 3" and "getBlacklistedOTP st uid code"
  shows "verifyOTP cfg cr d st nd req = (Inl replayedOTP, setOTPAttempts st uid)"
  using assms getUserComplete_userID[OF assms(2)]
  by (auto simp: verifyOTP_def presents_def split: option.splits)

lemma verifyOTP_wrong:
  assumes "presents d req uid code" and "getUserComplete st uid = Some u"
      and "getOTPAttempts st uid \<noteq> Some 3" and "\<not> getBlacklistedOTP st uid code"
      and "\<not> validateDefaultTOTP d code (totpSecret u)"
  shows "verifyOTP cfg cr d st nd req = (Inl wrongOTP, setOTPAttempts st uid)"
  using assms getUserComplete_userID[OF assms(2)]
  by (auto simp: verifyOTP_def presents_def split: option.splits)

lemma verifyOTP_Inr:
  assumes "verifyOTP cfg cr d st nd req = (Inr r, st')"
  shows "\<exists>uid code u. presents d req uid code \<and> getUserComplete st uid = Some u
           \<and> getOTPAttempts st uid \<noteq> Some 3 \<and> \<not> getBlacklistedOTP st uid code
           \<and> validateDefaultTOTP d code (totpSecret u)
           \<and> st' = setOTPSession (blacklistOTP st uid code) (nano nd) uid
           \<and> data r = TokenData (signEdDSAJWT cfg cr (clock_exp nd) (clock_iat nd) (clock_nbf nd)
                                    (nano nd) uid 15)"
proof -
  from assms obtain a where a: "authorization req = Some a"
    by (cases "authorization req") (auto simp: verifyOTP_def)
  obtain name code where pa: "parseBasicAuth d a = (name, code)"
    by (cases "parseBasicAuth d a")
  from assms a pa have ne: "name \<noteq> []" "code \<noteq> []"
    by (auto simp: verifyOTP_def split: if_splits)
  from assms a pa ne obtain u where u: "getUserComplete st name = Some u"
    by (cases "getUserComplete st name") (auto simp: verifyOTP_def)
  have id: "userID u = name" using u by (rule getUserComplete_userID)
  from a pa ne have "presents d req name code" by (simp add: presents_def)
  moreover from assms a pa ne u id
  have "getOTPAttempts st name \<noteq> Some 3 \<and> \<not> getBlacklistedOTP st name code
           \<and> validateDefaultTOTP d code (totpSecret u)
           \<and> st' = setOTPSession (blacklistOTP st name code) (nano nd) name
           \<and> data r = TokenData (signEdDSAJWT cfg cr (clock_exp nd) (clock_iat nd) (clock_nbf nd)
                                    (nano nd) name 15)"
    by (auto simp: verifyOTP_def Let_def split: if_splits)
  ultimately show ?thesis using u by blast
qed

lemma setOTPAttempts_fields [simp]:
  "users (setOTPAttempts st uid) = users st"
  "outbox (setOTPAttempts st uid) = outbox st"
  "blacklistedOTP (setOTPAttempts st uid) = blacklistedOTP st"
  "otpSessions (setOTPAttempts st uid) = otpSessions st"
  "securityAlertEmailLock (setOTPAttempts st uid) = securityAlertEmailLock st"
  "otpAttempts (setOTPAttempts st uid) =
     (otpAttempts st)(uid \<mapsto> (case otpAttempts st uid of None \<Rightarrow> 1 | Some n \<Rightarrow> n + 1))"
  by (simp_all add: setOTPAttempts_def)

lemma presents_validator [simp]:
  "presents (d\<lparr>validateDefaultTOTP := v\<rparr>) req uid code = presents d req uid code"
  by (simp add: presents_def split: option.splits)

text \<open>
  A run of calls that all present the locked-out user's credentials: every call is
  refused, and the store changes at most by the lock and the one mail of the first call.
\<close>

lemma verifyOTPs_locked:
  assumes "getUserComplete st uid = Some u" and "getOTPAttempts st uid = Some 3"
      and "\<forall>(nd, req) \<in> set calls. \<exists>code. presents d req uid code"
  shows "verifyOTPs cfg cr d st calls =
           (replicate (length calls) (Inl lockedOut),
            if calls = [] \<or> getSecurityAlertEmailLock st uid then st
            else st\<lparr>securityAlertEmailLock := insert uid (securityAlertEmailLock st),
                    outbox := outbox st @ [Notification (email u) (fullName u)]\<rparr>)"
  using assms
proof (induction calls arbitrary: st)
  case Nil
  then show ?case by simp
next
  case (Cons c calls)
  obtain nd req where c: "c = (nd, req)" by (cases c)
  from Cons.prems(3) c obtain code where p: "presents d req uid code" by auto
  let ?st1 = "if getSecurityAlertEmailLock st uid then st
              else st\<lparr>securityAlertEmailLock := insert uid (securityAlertEmailLock st),
                      outbox := outbox st @ [Notification (email u) (fullName u)]\<rparr>"
  have step: "verifyOTP cfg cr d st nd req = (Inl lockedOut, ?st1)"
    using verifyOTP_locked[OF p Cons.prems(1) Cons.prems(2)] .
  have u1: "getUserComplete ?st1 uid = Some u"
    using Cons.prems(1) by (simp add: getUserComplete_def)
  have a1: "getOTPAttempts ?st1 uid = Some 3"
    using Cons.prems(2) by (simp add: getOTPAttempts_def)
  have l1: "getSecurityAlertEmailLock ?st1 uid"
    by (simp add: getSecurityAlertEmailLock_def)
  have rest: "\<forall>(nd, req) \<in> set calls. \<exists>code. presents d req uid code"
    using Cons.prems(3) by simp
  have "verifyOTPs cfg cr d ?st1 calls = (replicate (length calls) (Inl lockedOut), ?st1)"
    using Cons.IH[OF u1 a1 rest] l1 by simp
  with step c show ?case by simp
qed

lemma verifyOTP_outbox:
  assumes "presents d req uid code" and "getUserComplete st uid = Some u"
      and "getOTPAttempts st uid \<noteq> Some 3"
  shows "outbox (snd (verifyOTP cfg cr d st nd req)) = outbox st"
  using assms getUserComplete_userID[OF assms(2)]
  by (auto simp: verifyOTP_def presents_def Let_def blacklistOTP_def setOTPSession_def
           split: option.splits)

lemma presents_unique:
  "presents d req uid code \<Longrightarrow> presents d req uid' code' \<Longrightarrow> uid' = uid \<and> code' = code"
  by (auto simp: presents_def split: option.splits)

lemma otpReq_presents: "CHR '':'' \<notin> set code \<Longrightarrow> code \<noteq> [] \<Longrightarrow> presents deps0 (otpReq code) ''alice-id'' code"
  by (simp add: presents_def otpReq_def req0_def deps0_def takeWhile_tail dropWhile_append3
        takeWhile_eq_all_conv dropWhile_eq_Nil_conv)

lemma alice_there: "getUserComplete (st_strikes n) ''alice-id'' = Some alice"
  "getUserComplete st0 ''alice-id'' = Some alice"
  by (simp_all add: getUserComplete_def st_strikes_def st0_def alice_def)

lemmas eval_defs = verifyOTP_def otpReq_def req0_def deps0_def st_strikes_def st0_def alice_def nd0_def
  getUserComplete_def getOTPAttempts_def getBlacklistedOTP_def getSecurityAlertEmailLock_def
  setOTPAttempts_def setSecurityAlertEmailLock_def blacklistOTP_def setOTPSession_def
  lockedOut_def wrongOTP_def replayedOTP_def failure_def Let_def

lemma strikes_attempts: "getOTPAttempts (st_strikes n) ''alice-id'' = Some n"
  by (simp add: getOTPAttempts_def st_strikes_def)

lemma sampleCalls_present: "\<forall>(nd, req) \<in> set sampleCalls. \<exists>code. presents deps0 req ''alice-id'' code"
proof -
  have "presents deps0 (otpReq ''123456'') ''alice-id'' ''123456''"
    by (rule otpReq_presents) simp_all
  moreover have "presents deps0 (otpReq ''000000'') ''alice-id'' ''000000''"
    by (rule otpReq_presents) simp_all
  ultimately show ?thesis by (auto simp: sampleCalls_def)
qed

text \<open>
  C3, as stated, fails: a login with a wrong password is answered with the 401 error and
  leaves the user's attempt counter where it was, here at one.
\<close>

theorem wrong_password_counts_nothing:
  "fst (login cfg0 cr0 deps0 (st_strikes 1) (nd0 ''s1'') (loginReq ''guess''))
     = Inl (AppError ''Invalid username and/or password!'' 401)
   \<and> getOTPAttempts (snd (login cfg0 cr0 deps0 (st_strikes 1) (nd0 ''s1'') (loginReq ''guess'')))
       ''alice-id'' = Some 1"
  by (simp add: login_def loginReq_def eval_defs)

text \<open>
  C3, amended. A \<open>verifyOTP\<close> call for a user who is not locked out and whose code is
  refused, because it is blacklisted (replayed) or because it does not validate (wrong),
  fails with the replay error or the wrong-code error, takes that user's OTP attempt
  counter up by exactly one and leaves every other user's counter as it was; a login that
  fails changes nothing in the store.
\<close>

theorem verifyOTP_failure_counts_once:
  assumes who: "presents d req uid code" and u: "getUserComplete st uid = Some u"
      and free: "getOTPAttempts st uid \<noteq> Some 3"
      and fails: "getBlacklistedOTP st uid code \<or> \<not> validateDefaultTOTP d code (totpSecret u)"
  shows "fst (verifyOTP cfg cr d st nd req)
           = Inl (if getBlacklistedOTP st uid code then replayedOTP else wrongOTP)
       \<and> getOTPAttempts (snd (verifyOTP cfg cr d st nd req)) uid
           = Some (case getOTPAttempts st uid of None \<Rightarrow> 1 | Some n \<Rightarrow> n + 1)
       \<and> (\<forall>v. v \<noteq> uid \<longrightarrow>
             getOTPAttempts (snd (verifyOTP cfg cr d st nd req)) v = getOTPAttempts st v)
       \<and> (\<forall>nd' req' e st'. login cfg cr d st nd' req' = (Inl e, st') \<longrightarrow> st' = st)"
proof -
  have step: "verifyOTP cfg cr d st nd req
          = (Inl (if getBlacklistedOTP st uid code then replayedOTP else wrongOTP),
             setOTPAttempts st uid)"
    using verifyOTP_replayed[OF who u free] verifyOTP_wrong[OF who u free] fails by auto
  have login_fail: "\<forall>nd' req' e st'. login cfg cr d st nd' req' = (Inl e, st') \<longrightarrow> st' = st"
    by (auto simp: login_def Let_def split: option.splits if_splits prod.splits sum.splits
             dest: createOrUpdateSession_Inl)
  from step login_fail show ?thesis by (simp add: getOTPAttempts_def)
qed

theorem verifyOTP_failure_counts_once_witness:
  "fst (verifyOTP cfg0 cr0 deps0 (st_strikes 1) (nd0 ''n1'') (otpReq ''000000'')) = Inl wrongOTP
   \<and> getOTPAttempts (snd (verifyOTP cfg0 cr0 deps0 (st_strikes 1) (nd0 ''n1'') (otpReq ''000000'')))
        ''alice-id'' = Some 2
   \<and> getOTPAttempts (snd (verifyOTP cfg0 cr0 deps0 (st_strikes 1) (nd0 ''n1'') (otpReq ''000000'')))
        ''bob-id'' = None
   \<and> snd (login cfg0 cr0 deps0 (st_strikes 1) (nd0 ''n1'') (loginReq ''guess'')) = st_strikes 1"
proof -
  have p: "presents deps0 (otpReq ''000000'') ''alice-id'' ''000000''"
    by (rule otpReq_presents) simp_all
  have free: "getOTPAttempts (st_strikes 1) ''alice-id'' \<noteq> Some 3"
    by (simp add: strikes_attempts)
  have fails: "getBlacklistedOTP (st_strikes 1) ''alice-id'' ''000000''
       \<or> \<not> validateDefaultTOTP deps0 ''000000'' (totpSecret alice)"
    by (simp add: deps0_def alice_def)
  have nb: "\<not> getBlacklistedOTP (st_strikes 1) ''alice-id'' ''000000''"
    by (simp add: getBlacklistedOTP_def st_strikes_def st0_def)
  have lg: "\<exists>e. fst (login cfg0 cr0 deps0 (st_strikes 1) (nd0 ''n1'') (loginReq ''guess'')) = Inl e"
    by (simp add: login_def loginReq_def eval_defs)
  have bob: "getOTPAttempts (st_strikes 1) ''bob-id'' = None"
    by (simp add: getOTPAttempts_def st_strikes_def)
  from verifyOTP_failure_counts_once[OF p alice_there(1) free fails,
         where cfg = cfg0 and cr = cr0 and nd = "nd0 ''n1''"]
    nb lg bob strikes_attempts[of 1]
  show ?thesis
    by (cases "login cfg0 cr0 deps0 (st_strikes 1) (nd0 ''n1'') (loginReq ''guess'')") auto
qed

text \<open>
  C4. Once the user's OTP attempt counter reads three, every \<open>verifyOTP\<close> call that
  presents that user's credentials fails with the lockout error, whatever the code; the
  counter stays at three, no step-up session is recorded, and the outcome does not depend
  on the validation function in any way.
\<close>

theorem verifyOTP_locked_out:
  assumes u: "getUserComplete st uid = Some u" and three: "getOTPAttempts st uid = Some 3"
      and calls: "\<forall>(nd, req) \<in> set calls. \<exists>code. presents d req uid code"
  shows "fst (verifyOTPs cfg cr d st calls) = replicate (length calls) (Inl lockedOut)
       \<and> getOTPAttempts (snd (verifyOTPs cfg cr d st calls)) uid = Some 3
       \<and> otpSessions (snd (verifyOTPs cfg cr d st calls)) = otpSessions st
       \<and> (\<forall>v. verifyOTPs cfg cr (d\<lparr>validateDefaultTOTP := v\<rparr>) st calls
               = verifyOTPs cfg cr d st calls)"
proof -
  note run = verifyOTPs_locked[OF u three calls, of cfg cr]
  have "\<forall>v. verifyOTPs cfg cr (d\<lparr>validateDefaultTOTP := v\<rparr>) st calls = verifyOTPs cfg cr d st calls"
  proof
    fix v
    have "\<forall>(nd, req) \<in> set calls. \<exists>code. presents (d\<lparr>validateDefaultTOTP := v\<rparr>) req uid code"
      using calls by simp
    from verifyOTPs_locked[OF u three this, of cfg cr] run
    show "verifyOTPs cfg cr (d\<lparr>validateDefaultTOTP := v\<rparr>) st calls = verifyOTPs cfg cr d st calls"
      by simp
  qed
  with run three show ?thesis by (simp add: getOTPAttempts_def)
qed

theorem verifyOTP_locked_out_witness:
  "validateDefaultTOTP deps0 ''123456'' (totpSecret alice)
   \<and> fst (verifyOTPs cfg0 cr0 deps0 (st_strikes 3) sampleCalls) = [Inl lockedOut, Inl lockedOut]
   \<and> getOTPAttempts (snd (verifyOTPs cfg0 cr0 deps0 (st_strikes 3) sampleCalls)) ''alice-id'' = Some 3
   \<and> otpSessions (snd (verifyOTPs cfg0 cr0 deps0 (st_strikes 3) sampleCalls)) = Map.empty
   \<and> verifyOTPs cfg0 cr0 (deps0\<lparr>validateDefaultTOTP := (\<lambda>c s. True)\<rparr>) (st_strikes 3) sampleCalls
       = verifyOTPs cfg0 cr0 deps0 (st_strikes 3) sampleCalls"
proof -
  have v: "validateDefaultTOTP deps0 ''123456'' (totpSecret alice)"
    by (simp add: deps0_def alice_def)
  from verifyOTP_locked_out[OF alice_there(1) strikes_attempts sampleCalls_present,
         where cfg = cfg0 and cr = cr0] v
  show ?thesis by (simp add: sampleCalls_def st_strikes_def st0_def)
qed

text \<open>
  C5, as stated, fails: with two strikes on the counter, a code that has been accepted
  once and is presented again after one more failed attempt meets the lockout error, not
  the replay error.
\<close>

theorem replay_while_locked_out:
  "map failure (fst (verifyOTPs cfg0 cr0 deps0 (st_strikes 2)
      [(nd0 ''n1'', otpReq ''123456''), (nd0 ''n2'', otpReq ''000000''), (nd0 ''n3'', otpReq ''123456'')]))
   = [None, Some wrongOTP, Some lockedOut]"
  by (simp add: eval_defs)

text \<open>
  C5, amended. When a \<open>verifyOTP\<close> call presenting \<open>(uid, code)\<close> succeeds, the pair is
  in the blacklist of the resulting store; the next call presenting the same pair fails
  with the replay error; and in any later store that still has the pair blacklisted, a
  call presenting it never succeeds: while the user exists it fails with the lockout
  error if the user's counter reads three and with the replay error otherwise.
\<close>

theorem verifyOTP_replay:
  assumes ok: "verifyOTP cfg cr d st nd req = (Inr r, st1)" and who: "presents d req uid code"
  shows "getBlacklistedOTP st1 uid code
       \<and> (\<forall>d2 nd2 req2. presents d2 req2 uid code \<longrightarrow>
             fst (verifyOTP cfg cr d2 st1 nd2 req2) = Inl replayedOTP)
       \<and> (\<forall>d2 st2 nd2 req2. presents d2 req2 uid code \<and> getBlacklistedOTP st2 uid code \<longrightarrow>
             (\<exists>e. fst (verifyOTP cfg cr d2 st2 nd2 req2) = Inl e)
           \<and> (getUserComplete st2 uid \<noteq> None \<longrightarrow>
                fst (verifyOTP cfg cr d2 st2 nd2 req2)
                  = Inl (if getOTPAttempts st2 uid = Some 3 then lockedOut else replayedOTP)))"
proof -
  from verifyOTP_Inr[OF ok] presents_unique[OF who]
  obtain u where u: "getUserComplete st uid = Some u"
    and free: "getOTPAttempts st uid \<noteq> Some 3"
    and st1: "st1 = setOTPSession (blacklistOTP st uid code) (nano nd) uid"
    by blast
  have b1: "getBlacklistedOTP st1 uid code"
    by (simp add: st1 getBlacklistedOTP_def setOTPSession_def blacklistOTP_def)
  have u1: "getUserComplete st1 uid = Some u"
    using u by (simp add: st1 getUserComplete_def setOTPSession_def blacklistOTP_def)
  have f1: "getOTPAttempts st1 uid \<noteq> Some 3"
    using free by (simp add: st1 getOTPAttempts_def setOTPSession_def blacklistOTP_def)
  have later: "\<forall>d2 st2 nd2 req2. presents d2 req2 uid code \<and> getBlacklistedOTP st2 uid code \<longrightarrow>
             (\<exists>e. fst (verifyOTP cfg cr d2 st2 nd2 req2) = Inl e)
           \<and> (getUserComplete st2 uid \<noteq> None \<longrightarrow>
                fst (verifyOTP cfg cr d2 st2 nd2 req2)
                  = Inl (if getOTPAttempts st2 uid = Some 3 then lockedOut else replayedOTP))"
  proof (intro allI impI)
    fix d2 st2 nd2 req2
    assume a: "presents d2 req2 uid code \<and> getBlacklistedOTP st2 uid code"
    show "(\<exists>e. fst (verifyOTP cfg cr d2 st2 nd2 req2) = Inl e)
           \<and> (getUserComplete st2 uid \<noteq> None \<longrightarrow>
                fst (verifyOTP cfg cr d2 st2 nd2 req2)
                  = Inl (if getOTPAttempts st2 uid = Some 3 then lockedOut else replayedOTP))"
    proof (cases "getUserComplete st2 uid")
      case None
      with a show ?thesis
        by (auto simp: verifyOTP_def presents_def split: option.splits)
    next
      case (Some u2)
      show ?thesis
      proof (cases "getOTPAttempts st2 uid = Some 3")
        case True
        with verifyOTP_locked[OF _ Some True, of d2 req2 code cfg cr nd2] a Some
        show ?thesis by simp
      next
        case False
        with verifyOTP_replayed[OF _ Some False, of d2 req2 code cfg cr nd2] a Some
        show ?thesis by simp
      qed
    qed
  qed
  have next_call: "\<forall>d2 nd2 req2. presents d2 req2 uid code \<longrightarrow>
             fst (verifyOTP cfg cr d2 st1 nd2 req2) = Inl replayedOTP"
    using later b1 u1 f1 by auto
  from b1 next_call later show ?thesis by blast
qed

theorem verifyOTP_replay_witness:
  "(\<exists>r st1. verifyOTP cfg0 cr0 deps0 st0 (nd0 ''n1'') (otpReq ''123456'') = (Inr r, st1)
      \<and> getBlacklistedOTP st1 ''alice-id'' ''123456''
      \<and> fst (verifyOTP cfg0 cr0 deps0 st1 (nd0 ''n2'') (otpReq ''123456'')) = Inl replayedOTP)"
proof -
  have p: "presents deps0 (otpReq ''123456'') ''alice-id'' ''123456''"
    by (rule otpReq_presents) simp_all
  have "\<exists>r st1. verifyOTP cfg0 cr0 deps0 st0 (nd0 ''n1'') (otpReq ''123456'') = (Inr r, st1)"
    by (simp add: eval_defs)
  then obtain r st1 where ok: "verifyOTP cfg0 cr0 deps0 st0 (nd0 ''n1'') (otpReq ''123456'') = (Inr r, st1)"
    by blast
  from verifyOTP_replay[OF ok p] p ok show ?thesis by blast
qed

text \<open>
  C7, as stated, fails: three failed attempts take the counter to three and no
  notification has been sent.
\<close>

theorem third_strike_sends_nothing:
  "getOTPAttempts (snd (verifyOTPs cfg0 cr0 deps0 st0
      [(nd0 ''n1'', otpReq ''000000''), (nd0 ''n2'', otpReq ''000001''), (nd0 ''n3'', otpReq ''000002'')]))
      ''alice-id'' = Some 3
   \<and> outbox (snd (verifyOTPs cfg0 cr0 deps0 st0
      [(nd0 ''n1'', otpReq ''000000''), (nd0 ''n2'', otpReq ''000001''), (nd0 ''n3'', otpReq ''000002'')])) = []"
  by (simp add: eval_defs)

text \<open>
  C7, amended. In a run of \<open>verifyOTP\<close> calls presenting the credentials of a user whose
  counter reads three, the first call sends one notification when the security-alert lock
  is not set, and sets it; with the lock set no call sends any. A call made while the
  counter does not read three, the strike that takes it to three included, sends none.
\<close>

theorem notification_once:
  assumes u: "getUserComplete st uid = Some u"
      and calls: "\<forall>(nd, req) \<in> set calls. \<exists>code. presents d req uid code"
  shows "(getOTPAttempts st uid = Some 3 \<and> \<not> getSecurityAlertEmailLock st uid \<longrightarrow>
            outbox (snd (verifyOTPs cfg cr d st calls))
              = outbox st @ (if calls = [] then [] else [Notification (email u) (fullName u)]))
       \<and> (getOTPAttempts st uid = Some 3 \<and> getSecurityAlertEmailLock st uid \<longrightarrow>
            outbox (snd (verifyOTPs cfg cr d st calls)) = outbox st)
       \<and> (getOTPAttempts st uid \<noteq> Some 3 \<longrightarrow>
            (\<forall>nd req code. presents d req uid code \<longrightarrow>
               outbox (snd (verifyOTP cfg cr d st nd req)) = outbox st))"
proof (intro conjI impI allI)
  assume "getOTPAttempts st uid = Some 3 \<and> \<not> getSecurityAlertEmailLock st uid"
  then show "outbox (snd (verifyOTPs cfg cr d st calls))
              = outbox st @ (if calls = [] then [] else [Notification (email u) (fullName u)])"
    using verifyOTPs_locked[OF u _ calls, of cfg cr] by simp
next
  assume "getOTPAttempts st uid = Some 3 \<and> getSecurityAlertEmailLock st uid"
  then show "outbox (snd (verifyOTPs cfg cr d st calls)) = outbox st"
    using verifyOTPs_locked[OF u _ calls, of cfg cr] by simp
next
  fix nd req code
  assume "getOTPAttempts st uid \<noteq> Some 3" and "presents d req uid code"
  then show "outbox (snd (verifyOTP cfg cr d st nd req)) = outbox st"
    using verifyOTP_outbox[OF _ u] by blast
qed

theorem notification_once_witness:
  "outbox (snd (verifyOTPs cfg0 cr0 deps0 (st_strikes 3) sampleCalls))
     = [Notification ''alice@example.com'' ''Alice'']
   \<and> outbox (snd (verifyOTPs cfg0 cr0 deps0
        (snd (verifyOTPs cfg0 cr0 deps0 (st_strikes 3) sampleCalls)) sampleCalls))
     = [Notification ''alice@example.com'' ''Alice'']
   \<and> outbox (snd (verifyOTP cfg0 cr0 deps0 (st_strikes 2) (nd0 ''n1'') (otpReq ''000000''))) = []"
proof -
  let ?st3 = "snd (verifyOTPs cfg0 cr0 deps0 (st_strikes 3) sampleCalls)"
  have nl: "\<not> getSecurityAlertEmailLock (st_strikes 3) ''alice-id''"
    by (simp add: getSecurityAlertEmailLock_def st_strikes_def st0_def)
  have ne: "sampleCalls \<noteq> []" by (simp add: sampleCalls_def)
  have first: "outbox ?st3 = [Notification ''alice@example.com'' ''Alice'']"
    using notification_once[OF alice_there(1)[of 3] sampleCalls_present,
            where cfg = cfg0 and cr = cr0] nl ne
      strikes_attempts[of 3]
    by (simp add: alice_def st_strikes_def st0_def)
  have st3: "?st3 = (st_strikes 3)\<lparr>securityAlertEmailLock := {''alice-id''},
                outbox := [Notification ''alice@example.com'' ''Alice'']\<rparr>"
    using verifyOTPs_locked[OF alice_there(1)[of 3] strikes_attempts sampleCalls_present,
            where cfg = cfg0 and cr = cr0] nl ne
    by (simp add: alice_def st_strikes_def st0_def)
  have u3: "getUserComplete ?st3 ''alice-id'' = Some alice"
    by (simp add: st3) (simp add: getUserComplete_def st_strikes_def st0_def alice_def)
  have a3: "getOTPAttempts ?st3 ''alice-id'' = Some 3"
    by (simp add: st3) (simp add: getOTPAttempts_def st_strikes_def)
  have l3: "getSecurityAlertEmailLock ?st3 ''alice-id''"
    by (simp add: st3) (simp add: getSecurityAlertEmailLock_def)
  have second: "outbox (snd (verifyOTPs cfg0 cr0 deps0 ?st3 sampleCalls)) = outbox ?st3"
    using notification_once[OF u3 sampleCalls_present, where cfg = cfg0 and cr = cr0] a3 l3 by simp
  have p: "presents deps0 (otpReq ''000000'') ''alice-id'' ''000000''"
    by (rule otpReq_presents) simp_all
  have strike: "outbox (snd (verifyOTP cfg0 cr0 deps0 (st_strikes 2) (nd0 ''n1'') (otpReq ''000000''))) = []"
    using notification_once[OF alice_there(1)[of 2] sampleCalls_present,
            where cfg = cfg0 and cr = cr0] p strikes_attempts[of 2]
    by (auto simp: st_strikes_def st0_def)
  from first second strike show ?thesis by simp
qed

lemma verifyOTP_attempts_cases:
  "otpAttempts (snd (verifyOTP cfg cr d st nd req)) = otpAttempts st
   \<or> (\<exists>w. getOTPAttempts st w \<noteq> Some 3 \<and> snd (verifyOTP cfg cr d st nd req) = setOTPAttempts st w)"
proof (cases "authorization req")
  case None
  then show ?thesis by (simp add: verifyOTP_def)
next
  case (Some a)
  obtain name code where pa: "parseBasicAuth d a = (name, code)" by (cases "parseBasicAuth d a")
  show ?thesis
  proof (cases "name = [] \<or> code = []")
    case True
    with Some pa show ?thesis by (auto simp: verifyOTP_def)
  next
    case False
    show ?thesis
    proof (cases "getUserComplete st name")
      case None
      with Some pa False show ?thesis by (simp add: verifyOTP_def)
    next
      case (Some u)
      with \<open>authorization req = Some a\<close> pa False show ?thesis
        by (simp add: verifyOTP_def Let_def setSecurityAlertEmailLock_def blacklistOTP_def
              setOTPSession_def) blast
    qed
  qed
qed

text \<open>Calls of \<open>verifyOTP\<close> never take a counter beyond three.\<close>

lemma verifyOTP_counter_bound:
  assumes "\<forall>v n. getOTPAttempts st v = Some n \<longrightarrow> n \<le> 3"
  shows "\<forall>v n. getOTPAttempts (snd (verifyOTP cfg cr d st nd req)) v = Some n \<longrightarrow> n \<le> 3"
proof (intro allI impI)
  fix v n
  assume v: "getOTPAttempts (snd (verifyOTP cfg cr d st nd req)) v = Some n"
  from verifyOTP_attempts_cases[of cfg cr d st nd req] show "n \<le> 3"
  proof
    assume "otpAttempts (snd (verifyOTP cfg cr d st nd req)) = otpAttempts st"
    with v assms show ?thesis by (simp add: getOTPAttempts_def)
  next
    assume "\<exists>w. getOTPAttempts st w \<noteq> Some 3 \<and> snd (verifyOTP cfg cr d st nd req) = setOTPAttempts st w"
    then obtain w where w: "getOTPAttempts st w \<noteq> Some 3"
      and eq: "snd (verifyOTP cfg cr d st nd req) = setOTPAttempts st w" by blast
    show ?thesis
    proof (cases "v = w")
      case False
      with v eq assms show ?thesis by (simp add: getOTPAttempts_def)
    next
      case True
      show ?thesis
      proof (cases "getOTPAttempts st w")
        case None
        with v eq True show ?thesis by (simp add: getOTPAttempts_def)
      next
        case (Some k)
        with assms have "k \<le> 3" by blast
        with w Some have "k < 3" by simp
        with v eq True Some show ?thesis by (simp add: getOTPAttempts_def)
      qed
    qed
  qed
qed

subsection \<open>Session tokens\<close>






text \<open>
  Across a second boundary the three clock readings of \<open>signHS256JWT\<close> differ: with \<open>exp\<close>
  read at 999 ms and \<open>iat\<close> at 1000 ms, a token of one minute has \<open>exp - iat = 59\<close>.
\<close>

lemma clock_readings_across_a_second:
  "exp (payload (signHS256JWT cfg cr 999 1000 1000 j s 1))
     - iat (payload (signHS256JWT cfg cr 999 1000 1000 j s 1)) = 59"
  by (simp add: signHS256JWT_def seconds_def Let_def js_plus_exact js_times_exact)

subsection \<open>The limiter\<close>

text \<open>
  C8. With threshold \<open>N\<close>, a request whose count is at most \<open>N\<close> is forwarded with no
  delay, a request whose count \<open>used\<close> is above \<open>N\<close> is forwarded after exactly
  \<open>(used - N) * 200\<close> milliseconds, and no request is rejected.
\<close>

theorem slowDown_delay:
  "slowDown N used = Forward (if used \<le> N then 0 else (used - N) * 200)
   \<and> (\<forall>code. slowDown N used \<noteq> Reject code)"
  by (simp add: slowDown_def delayMs_def Let_def)

subsection \<open>getStatus\<close>

lemma sendUserStatus_fresh:
  "sent res = None \<Longrightarrow>
   sendUserStatus a m who res =
     (Inr (), res\<lparr>sent := Some \<lparr> status = ''success'', statusCode = 200, data = StatusData a m who,
                   message = ''Successfully fetched the user's status!'', rtype = ''auth'' \<rparr>\<rparr>)"
  by (simp add: sendUserStatus_def sendResponse_def)

lemma sendUserStatus_sent:
  "sent res = Some r \<Longrightarrow> sendUserStatus a m who res = (Inl ERR_HTTP_HEADERS_SENT, res)"
  by (simp add: sendUserStatus_def sendResponse_def)

lemma stepUp_verifies:
  "verifyEdDSAJWT cfg0 cr0 (clock_verify (nd0 i)) (JWS (stepUpToken uid)) = Inr (payload (stepUpToken uid))"
  by (simp add: verifyEdDSAJWT_def stepUpToken_def signEdDSAJWT_def cfg0_def cr0_def nd0_def
        checkClaims_def seconds_def Let_def js_plus_exact js_times_exact)

text \<open>
  C9. On a response not yet sent, \<open>getStatus\<close> sends a success response with the user's
  status, and the status says \<open>isMFA\<close> exactly when the request has a session with a user
  id, that user exists and is active, the request presents a step-up token that verifies
  and has a \<open>jti\<close>, the OTP-session cache maps that \<open>jti\<close> to a user id, and this user id is
  both the session's and the token's \<open>sub\<close>. When the identifiers differ the status sent
  says \<open>isMFA = false\<close>.
\<close>

theorem getStatus_isMFA:
  assumes fresh: "sent res = None"
  shows "\<exists>rep a m who.
           sent (snd (getStatus sv cfg cr nd req res)) = Some rep
         \<and> status rep = ''success'' \<and> data rep = StatusData a m who
         \<and> (m \<longleftrightarrow>
              (\<exists>s u token decoded uid.
                  req_session req = Some s \<and> ai_userID s \<noteq> []
                \<and> getUser sv (ai_userID s) = Inr (Some u) \<and> isActive u
                \<and> extractHeader req = Some token
                \<and> verifyEdDSAJWT cfg cr (clock_verify nd) token = Inr decoded
                \<and> jti decoded \<noteq> []
                \<and> getOTPSession sv (jti decoded) = Inr (Some uid)
                \<and> ai_userID s = uid \<and> sub decoded = uid))"
  using fresh
  by (auto simp: getStatus_def getStatus_try_def sendUserStatus_fresh sendUserStatus_sent
           split: option.splits sum.splits if_splits prod.splits)

theorem getStatus_isMFA_witness:
  "(\<exists>rep a who. sent (snd (getStatus (statusServices ''alice-id'') cfg0 cr0 (nd0 ''x'')
                       (statusReq ''alice-id'') \<lparr>sent = None\<rparr>)) = Some rep
          \<and> data rep = StatusData a True who)
   \<and> (\<exists>rep a who. sent (snd (getStatus (statusServices ''bob-id'') cfg0 cr0 (nd0 ''x'')
                       (statusReq ''bob-id'') \<lparr>sent = None\<rparr>)) = Some rep
          \<and> data rep = StatusData a False who)"
proof -
  have fresh: "sent \<lparr>sent = None\<rparr> = None" by simp
  have same: "\<exists>s u token decoded uid.
                  req_session (statusReq ''alice-id'') = Some s \<and> ai_userID s \<noteq> []
                \<and> getUser (statusServices ''alice-id'') (ai_userID s) = Inr (Some u) \<and> isActive u
                \<and> extractHeader (statusReq ''alice-id'') = Some token
                \<and> verifyEdDSAJWT cfg0 cr0 (clock_verify (nd0 ''x'')) token = Inr decoded
                \<and> jti decoded \<noteq> []
                \<and> getOTPSession (statusServices ''alice-id'') (jti decoded) = Inr (Some uid)
                \<and> ai_userID s = uid \<and> sub decoded = uid"
    using stepUp_verifies[of "''x''" "''alice-id''"]
    by (simp add: statusServices_def statusReq_def req0_def aliceSession_def extractHeader_def
          alice_def stepUpToken_def signEdDSAJWT_def Let_def)
  have other: "\<not> (\<exists>s u token decoded uid.
                  req_session (statusReq ''bob-id'') = Some s \<and> ai_userID s \<noteq> []
                \<and> getUser (statusServices ''bob-id'') (ai_userID s) = Inr (Some u) \<and> isActive u
                \<and> extractHeader (statusReq ''bob-id'') = Some token
                \<and> verifyEdDSAJWT cfg0 cr0 (clock_verify (nd0 ''x'')) token = Inr decoded
                \<and> jti decoded \<noteq> []
                \<and> getOTPSession (statusServices ''bob-id'') (jti decoded) = Inr (Some uid)
                \<and> ai_userID s = uid \<and> sub decoded = uid)"
    using stepUp_verifies[of "''x''" "''bob-id''"]
    by (auto simp: statusServices_def statusReq_def req0_def aliceSession_def extractHeader_def
          stepUpToken_def signEdDSAJWT_def Let_def split: if_splits)
  from getStatus_isMFA[OF fresh, of "statusServices ''alice-id''" cfg0 cr0 "nd0 ''x''"
         "statusReq ''alice-id''"] same
  have a: "\<exists>rep a who. sent (snd (getStatus (statusServices ''alice-id'') cfg0 cr0 (nd0 ''x'')
                       (statusReq ''alice-id'') \<lparr>sent = None\<rparr>)) = Some rep
          \<and> data rep = StatusData a True who"
    by (elim exE conjE) auto
  from getStatus_isMFA[OF fresh, of "statusServices ''bob-id''" cfg0 cr0 "nd0 ''x''"
         "statusReq ''bob-id''"] other
  have b: "\<exists>rep a who. sent (snd (getStatus (statusServices ''bob-id'') cfg0 cr0 (nd0 ''x'')
                       (statusReq ''bob-id'') \<lparr>sent = None\<rparr>)) = Some rep
          \<and> data rep = StatusData a False who"
    by (elim exE conjE) auto
  from a b show ?thesis by blast
qed

text \<open>
  C10. The code does not do what the claim says on a request in one user's session that
  presents a step-up token of another user: the non-MFA status is sent, the source then
  goes on to send the MFA status on the response already sent, which throws, the \<open>catch\<close>
  block sends once more, which throws again, and \<open>getStatus\<close> ends with that exception.
\<close>

theorem getStatus_rejects_on_mismatch:
  "fst (getStatus (statusServices ''bob-id'') cfg0 cr0 (nd0 ''x'') (statusReq ''bob-id'')
          \<lparr>sent = None\<rparr>) = Inl ERR_HTTP_HEADERS_SENT
   \<and> map_option data (sent (snd (getStatus (statusServices ''bob-id'') cfg0 cr0 (nd0 ''x'')
          (statusReq ''bob-id'') \<lparr>sent = None\<rparr>))) = Some (StatusData True False (Some alice))"
  using stepUp_verifies[of "''x''" "''bob-id''"]
  by (simp add: getStatus_def getStatus_try_def sendUserStatus_def sendResponse_def
        statusServices_def statusReq_def req0_def aliceSession_def extractHeader_def
        alice_def stepUpToken_def signEdDSAJWT_def Let_def)

text \<open>
  On every other request \<open>getStatus\<close> ends normally: it leaves with an exception exactly
  when the flow reaches the comparison of the identifiers and they differ.
\<close>

lemma getStatus_throws_iff:
  assumes fresh: "sent res = None"
  shows "(\<exists>e. fst (getStatus sv cfg cr nd req res) = Inl e) \<longleftrightarrow>
           (\<exists>s u token decoded uid.
                  req_session req = Some s \<and> ai_userID s \<noteq> []
                \<and> getUser sv (ai_userID s) = Inr (Some u) \<and> isActive u
                \<and> extractHeader req = Some token
                \<and> verifyEdDSAJWT cfg cr (clock_verify nd) token = Inr decoded
                \<and> jti decoded \<noteq> []
                \<and> getOTPSession sv (jti decoded) = Inr (Some uid) \<and> uid \<noteq> []
                \<and> (ai_userID s \<noteq> uid \<or> sub decoded \<noteq> uid))"
  using fresh
  by (auto simp: getStatus_def getStatus_try_def sendUserStatus_fresh sendUserStatus_sent
           split: option.splits sum.splits if_splits prod.splits)

end
